theory Spec2Isabelle
  imports Complex_Main "HOL-Library.Product_Lexorder" "HOL-Library.Multiset"
  "HOL-Library.Code_Target_Numeral"
begin

unbundle bit_operations_syntax

section \<open>Conventions\<close>

text \<open>
  The development embeds the decision logic of \<^verbatim>\<open>nonebot_plugin_bili2mp4/main.py\<close>.
  Python integers are \<^typ>\<open>int\<close>; \<^verbatim>\<open>//\<close> and \<^verbatim>\<open>%\<close> are \<open>div\<close> and \<open>mod\<close>, which round the
  same way. A Python \<^verbatim>\<open>str\<close> whose characters the code inspects is a list of Unicode
  code points (\<open>pystr\<close>); a text that is only handed on to a library function is a
  \<^typ>\<open>string\<close>. The conversion \<^verbatim>\<open>int(text)\<close> follows the interpreter: it raises
  ValueError on a malformed text and on more than 4300 digits, the interpreter's default
  limit. A true division of integers gives the nearest double, ties to even, and raises
  OverflowError beyond the range of a double. Every \<^verbatim>\<open>raise\<close> that the source catches is
  a branch of the model, and every uncaught one is an \<open>Inl\<close>, \<open>None\<close> or \<open>Raise\<close> result.
\<close>

section \<open>Python sequence primitives\<close>

text \<open>\<^verbatim>\<open>xs[k]\<close>: a negative index counts from the end, anything outside raises IndexError.\<close>

definition py_index :: "'a list \<Rightarrow> int \<Rightarrow> 'a option" where
  "py_index xs k =
     (let n = int (length xs); j = (if k < 0 then n + k else k)
      in if 0 \<le> j \<and> j < n then Some (xs ! nat j) else None)"

text \<open>\<^verbatim>\<open>xs[k] = v\<close> on a list, with the same index rule.\<close>

definition py_setitem :: "'a list \<Rightarrow> int \<Rightarrow> 'a \<Rightarrow> 'a list option" where
  "py_setitem xs k v =
     (let n = int (length xs); j = (if k < 0 then n + k else k)
      in if 0 \<le> j \<and> j < n then Some (xs[nat j := v]) else None)"

fun startswith :: "'a list \<Rightarrow> 'a list \<Rightarrow> bool" where
  "startswith s [] = True"
| "startswith [] (p # ps) = False"
| "startswith (c # cs) (p # ps) = (c = p \<and> startswith cs ps)"

text \<open>The exceptions that reach a caller in the code below.\<close>

datatype py_exc = ValueError | OverflowError

section \<open>Python text\<close>

text \<open>A text is the list of its code points; \<open>lit\<close> turns an ASCII literal into one.\<close>

type_synonym pystr = "nat list"

definition lit :: "string \<Rightarrow> pystr" where
  "lit t = map of_char t"

text \<open>
  \<^verbatim>\<open>str.isspace\<close> on one code point: the characters that \<^verbatim>\<open>str.strip()\<close> removes and
  that the interpreter treats as white space.
\<close>

definition is_space :: "nat \<Rightarrow> bool" where
  "is_space c =
     (c \<in> {9, 10, 11, 12, 13, 28, 29, 30, 31, 32, 133, 160, 5760, 8232, 8233, 8239, 8287, 12288}
      \<or> (8192 \<le> c \<and> c \<le> 8202))"

definition strip_with :: "('a \<Rightarrow> bool) \<Rightarrow> 'a list \<Rightarrow> 'a list" where
  "strip_with P t = rev (dropWhile P (rev (dropWhile P t)))"

definition py_strip :: "pystr \<Rightarrow> pystr" where
  "py_strip t = strip_with is_space t"

text \<open>
  What the code needs of the Unicode character database beyond ASCII is a parameter:
  \<open>wide_decimal\<close> gives the value of a decimal digit at or above code point 128,
  \<open>wide_lower\<close> the lower-case form of such a code point.
\<close>

record unicode_db =
  wide_decimal :: "nat \<Rightarrow> nat option"
  wide_lower :: "nat \<Rightarrow> nat list"

text \<open>
  The decimal digits, which the pattern class \<^verbatim>\<open>\d\<close> matches and \<^verbatim>\<open>int\<close> converts:
  \<^verbatim>\<open>0\<close> to \<^verbatim>\<open>9\<close> and the digits of the database, which are never white space.
\<close>

definition decimal_of :: "unicode_db \<Rightarrow> nat \<Rightarrow> nat option" where
  "decimal_of db c =
     (if 48 \<le> c \<and> c \<le> 57 then Some (c - 48)
      else if c < 128 \<or> is_space c then None
      else (case wide_decimal db c of
              None \<Rightarrow> None
            | Some d \<Rightarrow> if d < 10 then Some d else None))"

definition is_decimal :: "unicode_db \<Rightarrow> nat \<Rightarrow> bool" where
  "is_decimal db c = (decimal_of db c \<noteq> None)"

definition digit_val :: "unicode_db \<Rightarrow> nat \<Rightarrow> int" where
  "digit_val db c = (case decimal_of db c of None \<Rightarrow> 0 | Some d \<Rightarrow> int d)"

text \<open>The decimal value of a list of digits.\<close>

definition int_of_digits :: "unicode_db \<Rightarrow> pystr \<Rightarrow> int" where
  "int_of_digits db ds = foldl (\<lambda>n c. 10 * n + digit_val db c) 0 ds"

text \<open>
  \<^verbatim>\<open>int(text)\<close> on a text. White space around the number is dropped: the ASCII blanks
  9 to 13 and 32, and every white-space code point from 128 on (the separators 28 to 31
  are not dropped). One sign may follow; then digits, single underscores allowed between
  two digits. More than \<open>int_max_str_digits\<close> digits raise, as anything malformed does:
  \<open>None\<close> is ValueError.
\<close>

definition int_max_str_digits :: nat where
  "int_max_str_digits = 4300"

definition int_pad :: "nat \<Rightarrow> bool" where
  "int_pad c = (c \<in> {9, 10, 11, 12, 13, 32} \<or> (128 \<le> c \<and> is_space c))"

fun digits_ok :: "unicode_db \<Rightarrow> pystr \<Rightarrow> bool" where
  "digits_ok db [] = False"
| "digits_ok db [c] = is_decimal db c"
| "digits_ok db (c # d # cs) =
     (is_decimal db c \<and> (if d = 95 then digits_ok db cs else digits_ok db (d # cs)))"

definition py_int :: "unicode_db \<Rightarrow> pystr \<Rightarrow> int option" where
  "py_int db text =
     (case strip_with int_pad text of
        [] \<Rightarrow> None
      | c # cs \<Rightarrow>
          (let body = (if c = 45 \<or> c = 43 then cs else c # cs);
               ds = filter (\<lambda>x. x \<noteq> 95) body
           in if \<not> digits_ok db body then None
              else if length ds > int_max_str_digits then None
              else Some (if c = 45 then - int_of_digits db ds else int_of_digits db ds)))"

text \<open>\<^verbatim>\<open>str.lower()\<close>.\<close>

definition lower_cp :: "unicode_db \<Rightarrow> nat \<Rightarrow> nat list" where
  "lower_cp db c =
     (if 65 \<le> c \<and> c \<le> 90 then [c + 32] else if c < 128 then [c] else wide_lower db c)"

definition py_lower :: "unicode_db \<Rightarrow> pystr \<Rightarrow> pystr" where
  "py_lower db t = concat (map (lower_cp db) t)"

section \<open>Identifier codec: \<^verbatim>\<open>_bili_av_to_bv\<close>\<close>

definition table :: string where
  "table = ''fZodR9XQDSUm21yCkr6zBqiveYah8bt4xsWpHnJE7jL5VG3guMTKNPAwcF''"

definition s :: "int list" where
  "s = [11, 10, 3, 8, 4, 6]"

definition xor_c :: int where
  "xor_c = 177451812"

definition add_c :: int where
  "add_c = 8728348608"

definition template :: string where
  "template = ''BV1  4 1 7  ''"

text \<open>
  One pass of the body of \<^verbatim>\<open>for i in range(6): r[s[i]] = table[x // 58**i % 58]\<close>.
  Each of the three subscripts may raise IndexError, which the enclosing \<^verbatim>\<open>try\<close> turns
  into the result \<^verbatim>\<open>None\<close>.
\<close>

definition bv_step :: "int \<Rightarrow> nat \<Rightarrow> string \<Rightarrow> string option" where
  "bv_step x i r =
     (case py_index s (int i) of
        None \<Rightarrow> None
      | Some p \<Rightarrow>
          (case py_index table (x div 58 ^ i mod 58) of
             None \<Rightarrow> None
           | Some c \<Rightarrow> py_setitem r p c))"

fun bv_loop :: "int \<Rightarrow> nat list \<Rightarrow> string \<Rightarrow> string option" where
  "bv_loop x [] r = Some r"
| "bv_loop x (i # is) r =
     (case bv_step x i r of None \<Rightarrow> None | Some r' \<Rightarrow> bv_loop x is r')"

definition bili_av_to_bv :: "int \<Rightarrow> string option" where
  "bili_av_to_bv aid =
     (let x = (aid XOR xor_c) + add_c
      in bv_loop x [0, 1, 2, 3, 4, 5] template)"

section \<open>Link normalizer: \<^verbatim>\<open>_normalize_bili_url\<close>\<close>

text \<open>
  \<^verbatim>\<open>re.fullmatch(r"(?i)av(\d+)", u)\<close>: the captured digits, or \<open>None\<close> for no match.
  Only \<^verbatim>\<open>a\<close>, \<^verbatim>\<open>A\<close> and \<^verbatim>\<open>v\<close>, \<^verbatim>\<open>V\<close> match the two letters.
\<close>

definition fullmatch_av :: "unicode_db \<Rightarrow> pystr \<Rightarrow> pystr option" where
  "fullmatch_av db u =
     (case u of
        a # v # ds \<Rightarrow>
          if (a = 97 \<or> a = 65) \<and> (v = 118 \<or> v = 86)
             \<and> ds \<noteq> [] \<and> list_all (is_decimal db) ds
          then Some ds else None
      | _ \<Rightarrow> None)"

definition video_prefix :: string where
  "video_prefix = ''https://www.bilibili.com/video/''"

text \<open>
  The two helpers of the normalizer that leave the process are parameters:
  \<open>expand\<close> is \<^verbatim>\<open>_expand_short_url\<close> (a redirect lookup over the network that
  returns its argument on any failure), \<open>extract_aid\<close> is \<^verbatim>\<open>_extract_aid_from_url\<close>
  (URL parsing by the standard library, \<open>None\<close> on any failure).
\<close>

record norm_env =
  expand :: "pystr \<Rightarrow> pystr"
  extract_aid :: "pystr \<Rightarrow> int option"

text \<open>A Python \<^verbatim>\<open>if bv:\<close> on an optional string: neither \<^verbatim>\<open>None\<close> nor empty.\<close>

definition truthy_str :: "string option \<Rightarrow> bool" where
  "truthy_str v = (case v of None \<Rightarrow> False | Some t \<Rightarrow> t \<noteq> [])"

text \<open>
  The function has no handler of its own. \<^verbatim>\<open>int(m.group(1))\<close> at line 361 is the one
  call in it that can raise, and its ValueError leaves the function: the result \<open>Inl\<close>.
\<close>

definition normalize_bili_url :: "unicode_db \<Rightarrow> norm_env \<Rightarrow> pystr \<Rightarrow> py_exc + pystr" where
  "normalize_bili_url db env raw =
     (let u = py_strip raw in
      case fullmatch_av db u of
        Some ds \<Rightarrow>
          (case py_int db ds of
             None \<Rightarrow> Inl ValueError
           | Some aid \<Rightarrow>
               (let bv = bili_av_to_bv aid
                in if truthy_str bv then Inr (lit (video_prefix @ the bv)) else Inr raw))
      | None \<Rightarrow>
          if \<not> (startswith (py_lower db u) (lit ''http://'')
                \<or> startswith (py_lower db u) (lit ''https://''))
          then Inr raw
          else
            (let u2 = expand env u in
             case extract_aid env u2 of
               Some aid \<Rightarrow>
                 (let bv = bili_av_to_bv aid
                  in if truthy_str bv then Inr (lit (video_prefix @ the bv)) else Inr u2)
             | None \<Rightarrow> Inr u2))"

section \<open>Sample texts\<close>

text \<open>A database with no digits beyond ASCII, and helpers that do nothing.\<close>

definition ascii_db :: unicode_db where
  "ascii_db = \<lparr>wide_decimal = (\<lambda>c. None), wide_lower = (\<lambda>c. [c])\<rparr>"

definition offline :: norm_env where
  "offline = \<lparr>expand = (\<lambda>u. u), extract_aid = (\<lambda>u. None)\<rparr>"

text \<open>The letters \<^verbatim>\<open>av\<close> followed by 4301 times the digit \<^verbatim>\<open>1\<close>.\<close>

definition long_av :: pystr where
  "long_av = 97 # 118 # replicate 4301 49"

section \<open>The local file system\<close>

text \<open>
  A file on disk has a size. Two flags record the failures that the source catches:
  \<open>stat_fails\<close> when reading the size raises, \<open>unlink_fails\<close> when deleting the file
  raises. \<open>remote\<close> stands for everything outside the disk that an external tool may
  depend on and change (network, server).
\<close>

record fentry =
  fsize :: nat
  stat_fails :: bool
  unlink_fails :: bool

record world =
  files :: "string \<rightharpoonup> fentry"
  remote :: nat

definition path_exists :: "world \<Rightarrow> string \<Rightarrow> bool" where
  "path_exists w p = (files w p \<noteq> None)"

text \<open>\<^verbatim>\<open>Path(p).stat().st_size\<close>: \<open>None\<close> when it raises.\<close>

definition stat_size :: "world \<Rightarrow> string \<Rightarrow> nat option" where
  "stat_size w p =
     (case files w p of
        None \<Rightarrow> None
      | Some e \<Rightarrow> if stat_fails e then None else Some (fsize e))"

text \<open>\<^verbatim>\<open>Path(p).unlink(missing_ok=True)\<close>: \<open>None\<close> when it raises.\<close>

definition unlink :: "world \<Rightarrow> string \<Rightarrow> world option" where
  "unlink w p =
     (case files w p of
        None \<Rightarrow> Some w
      | Some e \<Rightarrow> if unlink_fails e then None else Some (w\<lparr>files := (files w)(p := None)\<rparr>))"

section \<open>Path remapping in \<^verbatim>\<open>_send_video_with_timeout\<close>\<close>

text \<open>
  \<open>resolve\<close> is \<^verbatim>\<open>str(Path(p).resolve())\<close>, \<open>None\<close> when it raises; \<open>path_str\<close> is
  \<^verbatim>\<open>str(Path(p))\<close>. Both are the standard library's.
\<close>

record path_env =
  resolve :: "string \<Rightarrow> string option"
  path_str :: "string \<Rightarrow> string"

definition backslash :: char where
  "backslash = CHR 0x5C"

text \<open>\<^verbatim>\<open>rel.replace("\\", "/")\<close> and \<^verbatim>\<open>virt.rstrip("/")\<close>.\<close>

definition to_slashes :: "string \<Rightarrow> string" where
  "to_slashes r = map (\<lambda>c. if c = backslash then CHR ''/'' else c) r"

definition rstrip_slash :: "string \<Rightarrow> string" where
  "rstrip_slash v = rev (dropWhile (\<lambda>c. c = CHR ''/'') (rev v))"

text \<open>The path built at lines 576 to 579 from a matching entry.\<close>

definition virtual_path :: "string \<Rightarrow> string \<Rightarrow> string \<Rightarrow> string" where
  "virtual_path virt real_p p_resolved =
     (let rel = to_slashes (drop (length real_p) p_resolved);
          rel' = (if startswith rel ''/'' then rel else ''/'' @ rel)
      in rstrip_slash virt @ rel')"

text \<open>
  The loop \<^verbatim>\<open>for virt, real in path_mappings.items()\<close>. The table is the dictionary in
  insertion order, one pair \<open>(virt, real_dir)\<close> per entry (the source calls the second \<^verbatim>\<open>real\<close>). An entry whose resolution raises
  is passed over (\<^verbatim>\<open>continue\<close>); the first entry that matches ends the loop (\<^verbatim>\<open>break\<close>).
\<close>

fun mapping_loop :: "path_env \<Rightarrow> (string \<times> string) list \<Rightarrow> string \<Rightarrow> string \<Rightarrow> string" where
  "mapping_loop env [] path send_path = send_path"
| "mapping_loop env ((virt, real_dir) # rest) path send_path =
     (case resolve env real_dir of
        None \<Rightarrow> mapping_loop env rest path send_path
      | Some real_p \<Rightarrow>
          (case resolve env path of
             None \<Rightarrow> mapping_loop env rest path send_path
           | Some p_resolved \<Rightarrow>
               if startswith p_resolved real_p
               then virtual_path virt real_p p_resolved
               else mapping_loop env rest path send_path))"

definition send_path_of :: "path_env \<Rightarrow> (string \<times> string) list \<Rightarrow> string \<Rightarrow> string" where
  "send_path_of env path_mappings path = mapping_loop env path_mappings path (path_str env path)"

text \<open>
  For comparison, the translation as the specification words it: among the entries
  whose real path is a prefix of the file path, the one with the longest real path is
  applied (the earliest of them where several are equally long).
\<close>

definition entry_matches :: "path_env \<Rightarrow> string \<Rightarrow> string \<times> string \<Rightarrow> bool" where
  "entry_matches env path e =
     (case resolve env (snd e) of
        None \<Rightarrow> False
      | Some real_p \<Rightarrow>
          (case resolve env path of None \<Rightarrow> False | Some p_resolved \<Rightarrow> startswith p_resolved real_p))"

definition apply_entry :: "path_env \<Rightarrow> string \<Rightarrow> string \<times> string \<Rightarrow> string" where
  "apply_entry env path e =
     virtual_path (fst e) (the (resolve env (snd e))) (the (resolve env path))"

definition real_length :: "path_env \<Rightarrow> string \<times> string \<Rightarrow> nat" where
  "real_length env e = (case resolve env (snd e) of None \<Rightarrow> 0 | Some real_p \<Rightarrow> length real_p)"

fun longest_entry :: "path_env \<Rightarrow> (string \<times> string) list \<Rightarrow> (string \<times> string) option" where
  "longest_entry env [] = None"
| "longest_entry env (e # es) =
     (case longest_entry env es of
        None \<Rightarrow> Some e
      | Some b \<Rightarrow> if real_length env b > real_length env e then Some b else Some e)"

definition spec_longest_prefix_path :: "path_env \<Rightarrow> (string \<times> string) list \<Rightarrow> string \<Rightarrow> string" where
  "spec_longest_prefix_path env path_mappings path =
     (case longest_entry env (filter (entry_matches env path) path_mappings) of
        None \<Rightarrow> path_str env path
      | Some e \<Rightarrow> apply_entry env path e)"

section \<open>Post-fetch validator: \<^verbatim>\<open>_check_video_file\<close>\<close>

text \<open>\<^verbatim>\<open>text.split(",")\<close> with a one-character separator.\<close>

fun split_on :: "'a \<Rightarrow> 'a list \<Rightarrow> 'a list list" where
  "split_on sep [] = [[]]"
| "split_on sep (c # cs) =
     (if c = sep then [] # split_on sep cs
      else (case split_on sep cs of [] \<Rightarrow> [[c]] | w # ws \<Rightarrow> (c # w) # ws))"

text \<open>
  The outcome of \<^verbatim>\<open>subprocess.run\<close> on the inspection tool: the call itself raises (the
  tool cannot be started), or the tool exits with a return code and its standard output.
\<close>

datatype proc = Launch_failed | Completed int pystr

text \<open>
  \<open>run\<close> is the inspection tool applied to a path. The outer handler
  \<^verbatim>\<open>except Exception: return False\<close> receives a failed launch and a failed deletion;
  the inner \<^verbatim>\<open>except ValueError: pass\<close> receives a failed unpacking of the two fields
  and a failed \<^verbatim>\<open>int(height)\<close>, which is evaluated only when \<open>max_height\<close> is non-zero.
\<close>

definition check_video_file ::
    "unicode_db \<Rightarrow> (string \<Rightarrow> world \<Rightarrow> proc) \<Rightarrow> int \<Rightarrow> string \<Rightarrow> world \<Rightarrow> bool \<times> world" where
  "check_video_file db run max_height path w =
     (if \<not> path_exists w path then (False, w)
      else
        (case run path w of
           Launch_failed \<Rightarrow> (False, w)
         | Completed returncode stdout \<Rightarrow>
             if returncode = 0 then
               (case split_on 44 (py_strip stdout) of
                  [width, height] \<Rightarrow>
                    if max_height = 0 then (True, w)
                    else
                      (case py_int db height of
                         None \<Rightarrow> (True, w)
                       | Some h \<Rightarrow>
                           if h > max_height then
                             (case unlink w path of
                                None \<Rightarrow> (False, w)
                              | Some w' \<Rightarrow> (False, w'))
                           else (True, w))
                | _ \<Rightarrow> (True, w))
             else (True, w)))"

text \<open>The height that a run of the tool reports, where its output parses.\<close>

definition reported_height :: "unicode_db \<Rightarrow> proc \<Rightarrow> int option" where
  "reported_height db r =
     (case r of
        Launch_failed \<Rightarrow> None
      | Completed returncode stdout \<Rightarrow>
          if returncode = 0 then
            (case split_on 44 (py_strip stdout) of
               [width, height] \<Rightarrow> py_int db height
             | _ \<Rightarrow> None)
          else None)"

text \<open>A limit is configured and the reported height exceeds it.\<close>

definition too_tall :: "unicode_db \<Rightarrow> int \<Rightarrow> proc \<Rightarrow> bool" where
  "too_tall db max_height r =
     (max_height \<noteq> 0
      \<and> (case reported_height db r of None \<Rightarrow> False | Some h \<Rightarrow> h > max_height))"

section \<open>Sample files\<close>

definition file_a :: fentry where
  "file_a = \<lparr>fsize = 1000, stat_fails = False, unlink_fails = False\<rparr>"

definition file_locked :: fentry where
  "file_locked = \<lparr>fsize = 1000, stat_fails = False, unlink_fails = True\<rparr>"

definition disk_with :: "string \<Rightarrow> fentry \<Rightarrow> world" where
  "disk_with p e = \<lparr>files = [p \<mapsto> e], remote = 0\<rparr>"

definition empty_disk :: world where
  "empty_disk = \<lparr>files = Map.empty, remote = 0\<rparr>"

text \<open>Three outputs of the tool: well formed, and with a separator 28 or 4301 digits as height.\<close>

definition out_1080 :: pystr where
  "out_1080 = lit ''1920,1080''"

definition out_sep :: pystr where
  "out_sep = lit ''1920,'' @ [28] @ lit ''1080''"

definition out_long :: pystr where
  "out_long = lit ''1920,'' @ replicate 4301 57"

section \<open>True division by \<^verbatim>\<open>1024 * 1024\<close>\<close>

text \<open>\<^verbatim>\<open>int.bit_length\<close> of a natural number.\<close>

fun bit_length :: "nat \<Rightarrow> nat" where
  "bit_length n = (if n = 0 then 0 else Suc (bit_length (n div 2)))"

declare bit_length.simps [simp del]

text \<open>
  A natural number rounded to 53 significant bits, the precision of a double: to the
  nearest such number, a tie going to the one whose last kept bit is even.
\<close>

definition round53 :: "nat \<Rightarrow> nat" where
  "round53 n =
     (let k = bit_length n in
      if k \<le> 53 then n
      else
        (let sh = k - 53; q = n div 2 ^ sh; r = n mod 2 ^ sh; half = 2 ^ (sh - 1);
             q' = (if r > half \<or> (r = half \<and> odd q) then q + 1 else q)
         in q' * 2 ^ sh))"

definition mb :: rat where
  "mb = 1024 * 1024"

text \<open>
  \<^verbatim>\<open>x / (1024 * 1024)\<close> on an integer \<open>x\<close>: the double nearest to the quotient, as an
  exact rational; \<open>None\<close> is OverflowError, raised when that double would be \<open>2 ^ 1024\<close>
  or more. Dividing by a power of two only shifts the exponent, so the rounding is that of
  \<open>x\<close> itself.
\<close>

definition div_mb :: "int \<Rightarrow> rat option" where
  "div_mb x =
     (let m = round53 (nat \<bar>x\<bar>) in
      if m \<ge> 2 ^ 1044 then None
      else Some (of_int (sgn x) * of_nat m / mb))"

section \<open>Rendition selector: \<^verbatim>\<open>_download_with_ytdlp\<close>\<close>

text \<open>
  A size field of a rendition descriptor as the loop reads it: missing or \<^verbatim>\<open>None\<close>, a
  number (integer or finite float), or a value on which \<^verbatim>\<open>int(...)\<close> raises.
\<close>

datatype size_field = Absent | Num rat | Unconvertible

record fmt =
  format_id :: "string option"
  vcodec :: "string option"
  height :: "int option"
  tbr :: "rat option"
  filesize_approx :: size_field
  filesize :: size_field

text \<open>\<^verbatim>\<open>fmt.get("height") or 0\<close> and \<^verbatim>\<open>fmt.get("tbr") or 0\<close>.\<close>

definition h_of :: "fmt \<Rightarrow> int" where
  "h_of f = (case height f of None \<Rightarrow> 0 | Some h \<Rightarrow> h)"

definition tbr_of :: "fmt \<Rightarrow> rat" where
  "tbr_of f = (case tbr f of None \<Rightarrow> 0 | Some b \<Rightarrow> b)"

text \<open>Lines 677 and 679: the filter on \<^verbatim>\<open>vcodec\<close> and the sort key.\<close>

definition has_video :: "fmt \<Rightarrow> bool" where
  "has_video f = (vcodec f \<noteq> Some ''none'')"

definition rank :: "fmt \<Rightarrow> int \<times> rat" where
  "rank f = (h_of f, tbr_of f)"

text \<open>
  \<^verbatim>\<open>formats.sort(key=..., reverse=True)\<close> is a stable sort: the list is reversed, sorted
  in ascending order keeping equal keys in place, and reversed again.
\<close>

definition candidates :: "fmt list \<Rightarrow> fmt list" where
  "candidates formats = rev (sort_key rank (rev (filter has_video formats)))"

text \<open>\<^verbatim>\<open>int(x)\<close> on a number rounds towards zero.\<close>

definition py_int_of_rat :: "rat \<Rightarrow> int" where
  "py_int_of_rat r = (if 0 \<le> r then \<lfloor>r\<rfloor> else \<lceil>r\<rceil>)"

text \<open>
  \<^verbatim>\<open>if fmt.get(k): try: v = int(fmt.get(k)) except Exception: v = None\<close>: nothing for
  a missing or zero field and for a failed conversion.
\<close>

definition int_guarded :: "size_field \<Rightarrow> int option" where
  "int_guarded v =
     (case v of
        Absent \<Rightarrow> None
      | Num r \<Rightarrow> if r = 0 then None else Some (py_int_of_rat r)
      | Unconvertible \<Rightarrow> None)"

definition filesize_bytes :: "fmt \<Rightarrow> int option" where
  "filesize_bytes f =
     (case int_guarded (filesize_approx f) of
        Some b \<Rightarrow> Some b
      | None \<Rightarrow> int_guarded (filesize f))"

text \<open>The height pre-check, line 691.\<close>

definition height_skip :: "int \<Rightarrow> fmt \<Rightarrow> bool" where
  "height_skip height_limit f = (height_limit \<noteq> 0 \<and> h_of f \<noteq> 0 \<and> h_of f > height_limit)"

text \<open>
  The size pre-check, lines 708 to 714: \<open>Inr True\<close> is \<^verbatim>\<open>continue\<close>. The division of
  line 709 stands outside every handler, so its OverflowError leaves the function.
\<close>

definition size_precheck :: "int \<Rightarrow> fmt \<Rightarrow> py_exc + bool" where
  "size_precheck size_limit_mb f =
     (if size_limit_mb = 0 then Inr False
      else
        (case filesize_bytes f of
           None \<Rightarrow> Inr False
         | Some b \<Rightarrow>
             (case div_mb b of
                None \<Rightarrow> Inl OverflowError
              | Some size_mb_est \<Rightarrow> Inr (size_mb_est > of_int size_limit_mb))))"

text \<open>
  The log line 717 formats the estimate in megabytes whenever there is one, with the same
  division, again outside every handler.
\<close>

definition log_estimate :: "fmt \<Rightarrow> py_exc option" where
  "log_estimate f =
     (case filesize_bytes f of
        None \<Rightarrow> None
      | Some b \<Rightarrow> (case div_mb b of None \<Rightarrow> Some OverflowError | Some q \<Rightarrow> None))"

text \<open>A rendition that passes both pre-checks and reaches the download request.\<close>

definition eligible :: "int \<Rightarrow> int \<Rightarrow> fmt \<Rightarrow> bool" where
  "eligible height_limit size_limit_mb f =
     (\<not> height_skip height_limit f \<and> size_precheck size_limit_mb f = Inr False
      \<and> log_estimate f = None)"

text \<open>
  One download request to the retrieval engine, lines 724 to 726: it raises
  \<^verbatim>\<open>DownloadError\<close>, raises something else, or returns, and then \<^verbatim>\<open>_locate_final_file\<close>
  yields a path or \<^verbatim>\<open>None\<close>. The engine receives the format identifier and may change
  the disk in any way.
\<close>

datatype dl_outcome = DownloadError string | OtherError string | Located "string option"

type_synonym engine = "string option \<Rightarrow> world \<Rightarrow> dl_outcome \<times> world"

text \<open>
  The failure details. \<open>FileNotFound\<close> and \<open>FileOverLimit\<close> are the two fixed messages
  of lines 729 and 745, \<open>EngineError\<close> carries the text of an engine exception,
  \<open>NoCandidate\<close> is the generic message of line 766 and \<open>FormatInfoFailed\<close> the message
  of line 681.
\<close>

datatype errmsg =
  FileNotFound | FileOverLimit | EngineError string | NoCandidate | FormatInfoFailed string

text \<open>
  The state of the loop: the disk, the variable \<^verbatim>\<open>last_err\<close>, and the list of the
  renditions requested from the engine so far (kept for the statements below; the source
  does not store it).
\<close>

record sel_state =
  disk :: world
  last_err :: "errmsg option"
  attempted :: "fmt list"

text \<open>
  How one pass of the loop body ends: \<^verbatim>\<open>continue\<close>, \<^verbatim>\<open>return\<close> with a path, or an
  exception that nothing catches.
\<close>

datatype step = Next | Done string | Raise py_exc

text \<open>
  Lines 719 to 761: the retrieval attempt and the post-check. Every exception in this
  part is caught: those of the engine by lines 754 to 761, those of reading the size and
  of the division by line 747, which lets the file pass.
\<close>

definition attempt :: "engine \<Rightarrow> int \<Rightarrow> fmt \<Rightarrow> sel_state \<Rightarrow> step \<times> sel_state" where
  "attempt ydl size_limit_mb f st =
     (case ydl (format_id f) (disk st) of
        (outcome, w1) \<Rightarrow>
          (let st1 = st\<lparr>disk := w1, attempted := attempted st @ [f]\<rparr> in
           case outcome of
             DownloadError e \<Rightarrow> (Next, st1\<lparr>last_err := Some (EngineError e)\<rparr>)
           | OtherError e \<Rightarrow> (Next, st1\<lparr>last_err := Some (EngineError e)\<rparr>)
           | Located None \<Rightarrow> (Next, st1\<lparr>last_err := Some FileNotFound\<rparr>)
           | Located (Some final_path) \<Rightarrow>
               if final_path = [] \<or> \<not> path_exists w1 final_path
               then (Next, st1\<lparr>last_err := Some FileNotFound\<rparr>)
               else if size_limit_mb = 0 then (Done final_path, st1)
               else
                 (case stat_size w1 final_path of
                    None \<Rightarrow> (Done final_path, st1)
                  | Some sz \<Rightarrow>
                      (case div_mb (int sz) of
                         None \<Rightarrow> (Done final_path, st1)
                       | Some size_mb \<Rightarrow>
                           if size_mb > of_int size_limit_mb
                           then (Next, st1\<lparr>disk := (case unlink w1 final_path of
                                                       None \<Rightarrow> w1 | Some w2 \<Rightarrow> w2),
                                            last_err := Some FileOverLimit\<rparr>)
                           else (Done final_path, st1)))))"

text \<open>One pass of the body of \<^verbatim>\<open>for fmt in formats\<close>.\<close>

definition loop_body :: "engine \<Rightarrow> int \<Rightarrow> int \<Rightarrow> fmt \<Rightarrow> sel_state \<Rightarrow> step \<times> sel_state" where
  "loop_body ydl height_limit size_limit_mb f st =
     (if height_skip height_limit f then (Next, st)
      else
        (case size_precheck size_limit_mb f of
           Inl e \<Rightarrow> (Raise e, st)
         | Inr True \<Rightarrow> (Next, st)
         | Inr False \<Rightarrow>
             (case log_estimate f of
                Some e \<Rightarrow> (Raise e, st)
              | None \<Rightarrow> attempt ydl size_limit_mb f st)))"

fun select_loop :: "engine \<Rightarrow> int \<Rightarrow> int \<Rightarrow> fmt list \<Rightarrow> sel_state \<Rightarrow> step \<times> sel_state" where
  "select_loop ydl height_limit size_limit_mb [] st = (Next, st)"
| "select_loop ydl height_limit size_limit_mb (f # fs) st =
     (case loop_body ydl height_limit size_limit_mb f st of
        (r, st') \<Rightarrow>
          (case r of
             Next \<Rightarrow> select_loop ydl height_limit size_limit_mb fs st'
           | Done final_path \<Rightarrow> (Done final_path, st')
           | Raise e \<Rightarrow> (Raise e, st')))"

text \<open>
  The answer of the no-download query, lines 672 to 675, and the title
  \<^verbatim>\<open>info.get("title") or <default>\<close>; \<open>DefaultTitle\<close> is the fixed default caption.
\<close>

record info =
  info_title :: "string option"
  info_formats :: "fmt list option"

datatype title = DefaultTitle | Title string

definition title_of :: "info \<Rightarrow> title" where
  "title_of i =
     (case info_title i of
        None \<Rightarrow> DefaultTitle
      | Some t \<Rightarrow> if t = [] then DefaultTitle else Title t)"

definition formats_of :: "info \<Rightarrow> fmt list" where
  "formats_of i = (case info_formats i of None \<Rightarrow> [] | Some fs \<Rightarrow> fs)"

text \<open>
  The retrieval engine: whether the library can be imported, the no-download query
  (which raises with a message, or answers), and the download request. Creating the
  output directory, expanding a short link and writing the cookie file come before the
  query and only prepare what the engine receives.
\<close>

record ytdlp =
  installed :: bool
  probe :: "world \<Rightarrow> (string + info) \<times> world"
  download :: engine

text \<open>
  What the function raises: ImportError, the RuntimeError of lines 681, 765 and 766 with
  its detail, or an exception that passed through uncaught.
\<close>

datatype sel_error = ImportError | RuntimeError errmsg | Uncaught py_exc

definition init_state :: "world \<Rightarrow> sel_state" where
  "init_state w = \<lparr>disk = w, last_err = None, attempted = []\<rparr>"

definition download_with_ytdlp ::
    "ytdlp \<Rightarrow> int \<Rightarrow> int \<Rightarrow> world \<Rightarrow> (sel_error + string \<times> title) \<times> sel_state" where
  "download_with_ytdlp y height_limit size_limit_mb w =
     (if \<not> installed y then (Inl ImportError, init_state w)
      else
        (case probe y w of
           (Inl e, w1) \<Rightarrow> (Inl (RuntimeError (FormatInfoFailed e)), init_state w1)
         | (Inr i, w1) \<Rightarrow>
             (case select_loop (download y) height_limit size_limit_mb
                     (candidates (formats_of i)) (init_state w1) of
                (r, st) \<Rightarrow>
                  (case r of
                     Done final_path \<Rightarrow> (Inr (final_path, title_of i), st)
                   | Raise e \<Rightarrow> (Inl (Uncaught e), st)
                   | Next \<Rightarrow>
                       (case last_err st of
                          Some m \<Rightarrow> (Inl (RuntimeError m), st)
                        | None \<Rightarrow> (Inl (RuntimeError NoCandidate), st))))))"

text \<open>
  An engine that leaves nothing behind: a download that reports a file has written
  exactly that file, with a non-empty name and deletable; any other outcome leaves the
  disk as it was.
\<close>

definition leaves_only_located :: "engine \<Rightarrow> bool" where
  "leaves_only_located ydl =
     (\<forall>fid w.
        case ydl fid w of
          (Located (Some p), w') \<Rightarrow>
             p \<noteq> [] \<and> (\<exists>e. files w' = (files w)(p \<mapsto> e) \<and> \<not> unlink_fails e)
        | (_, w') \<Rightarrow> files w' = files w)"

section \<open>Sample renditions and engines\<close>

definition r360 :: fmt where
  "r360 = \<lparr>format_id = Some ''16'', vcodec = Some ''avc1'', height = Some 360,
           tbr = Some 300, filesize_approx = Absent, filesize = Absent\<rparr>"

definition r720 :: fmt where
  "r720 = \<lparr>format_id = Some ''64'', vcodec = Some ''avc1'', height = Some 720,
           tbr = Some 1200, filesize_approx = Absent, filesize = Absent\<rparr>"

definition r1080 :: fmt where
  "r1080 = \<lparr>format_id = Some ''80'', vcodec = Some ''avc1'', height = Some 1080,
            tbr = Some 2500, filesize_approx = Absent, filesize = Absent\<rparr>"

definition r_audio :: fmt where
  "r_audio = \<lparr>format_id = Some ''30280'', vcodec = Some ''none'', height = None,
              tbr = Some 128, filesize_approx = Absent, filesize = Absent\<rparr>"

definition r_big :: fmt where
  "r_big = \<lparr>format_id = Some ''112'', vcodec = Some ''avc1'', height = Some 1080,
            tbr = Some 5000, filesize_approx = Num 52428800, filesize = Absent\<rparr>"

definition r240 :: fmt where
  "r240 = \<lparr>format_id = Some ''6'', vcodec = Some ''avc1'', height = Some 240,
           tbr = Some 100, filesize_approx = Absent, filesize = Num 52428800\<rparr>"


text \<open>An engine that writes a file of the given description to \<^verbatim>\<open>v.mp4\<close> on every request.\<close>

definition writes :: "fentry \<Rightarrow> engine" where
  "writes e fid w = (Located (Some ''v.mp4''), w\<lparr>files := (files w)(''v.mp4'' \<mapsto> e)\<rparr>)"

text \<open>The same engine, except that it refuses the format \<^verbatim>\<open>80\<close>.\<close>

definition flaky :: "fentry \<Rightarrow> engine" where
  "flaky e fid w = (if fid = Some ''80'' then (DownloadError ''403'', w) else writes e fid w)"

definition file_2mb :: fentry where
  "file_2mb = \<lparr>fsize = 2097152, stat_fails = False, unlink_fails = False\<rparr>"

definition file_2mb_locked :: fentry where
  "file_2mb_locked = \<lparr>fsize = 2097152, stat_fails = False, unlink_fails = True\<rparr>"

definition lists :: "fmt list \<Rightarrow> world \<Rightarrow> (string + info) \<times> world" where
  "lists fs w = (Inr \<lparr>info_title = Some ''clip'', info_formats = Some fs\<rparr>, w)"

text \<open>Engine descriptions offering the given renditions under the title \<^verbatim>\<open>clip\<close>.\<close>

definition shop :: "fmt list \<Rightarrow> fentry \<Rightarrow> ytdlp" where
  "shop fs e = \<lparr>installed = True, probe = lists fs, download = writes e\<rparr>"

definition shop_flaky :: "fmt list \<Rightarrow> fentry \<Rightarrow> ytdlp" where
  "shop_flaky fs e = \<lparr>installed = True, probe = lists fs, download = flaky e\<rparr>"

definition clip :: "fmt list \<Rightarrow> info" where
  "clip fs = \<lparr>info_title = Some ''clip'', info_formats = Some fs\<rparr>"

definition st_done :: "fentry \<Rightarrow> errmsg option \<Rightarrow> fmt list \<Rightarrow> sel_state" where
  "st_done e err fs =
     \<lparr>disk = \<lparr>files = [''v.mp4'' \<mapsto> e], remote = 0\<rparr>, last_err = err, attempted = fs\<rparr>"

definition st_clean :: "errmsg option \<Rightarrow> fmt list \<Rightarrow> sel_state" where
  "st_clean err fs = \<lparr>disk = empty_disk, last_err = err, attempted = fs\<rparr>"

section \<open>Link extractor: \<^verbatim>\<open>_extract_bili_urls_from_event\<close>\<close>

text \<open>
  The values that a segment's \<^verbatim>\<open>data\<close> dictionary may hold, which are also the values
  that \<^verbatim>\<open>json.loads\<close> produces. A dictionary is the list of its items in order.
\<close>

datatype pyval =
  PNone | PBool bool | PInt int | PStr string | PList "pyval list" | PDict "(string \<times> pyval) list"

text \<open>Python truth of a value, \<^verbatim>\<open>a or b\<close>, and \<^verbatim>\<open>d.get(k)\<close>, \<^verbatim>\<open>d.get(k, default)\<close>.\<close>

fun truthy :: "pyval \<Rightarrow> bool" where
  "truthy PNone = False"
| "truthy (PBool b) = b"
| "truthy (PInt n) = (n \<noteq> 0)"
| "truthy (PStr t) = (t \<noteq> [])"
| "truthy (PList xs) = (xs \<noteq> [])"
| "truthy (PDict kvs) = (kvs \<noteq> [])"

definition py_or :: "pyval \<Rightarrow> pyval \<Rightarrow> pyval" where
  "py_or a b = (if truthy a then a else b)"

definition dict_get_default :: "(string \<times> pyval) list \<Rightarrow> string \<Rightarrow> pyval \<Rightarrow> pyval" where
  "dict_get_default d k dflt = (case map_of d k of None \<Rightarrow> dflt | Some v \<Rightarrow> v)"

definition dict_get :: "(string \<times> pyval) list \<Rightarrow> string \<Rightarrow> pyval" where
  "dict_get d k = dict_get_default d k PNone"

text \<open>
  The library functions of the extractor are parameters: \<open>findall_bili\<close> is
  \<^verbatim>\<open>BILI_URL_RE.findall\<close>; \<open>query_values\<close> gives, for a text, the percent-decoded values
  of the four query parameters that the \<^verbatim>\<open>try\<close> block of \<^verbatim>\<open>_find_urls_in_text\<close> visits,
  in order (none when parsing raises); \<open>json_loads\<close> is \<^verbatim>\<open>json.loads\<close>, \<open>None\<close> when
  it raises; \<open>findall_av\<close> and \<open>findall_av_url\<close> are the two \<^verbatim>\<open>re.findall\<close> calls of
  lines 298 and 304, which return the captured digits.
\<close>

record text_env =
  findall_bili :: "string \<Rightarrow> string list"
  query_values :: "string \<Rightarrow> string list"
  json_loads :: "string \<Rightarrow> pyval option"
  findall_av :: "string \<Rightarrow> string list"
  findall_av_url :: "string \<Rightarrow> string list"

text \<open>\<^verbatim>\<open>for u in us: if u not in urls: urls.append(u)\<close>.\<close>

fun add_unique :: "string list \<Rightarrow> string list \<Rightarrow> string list" where
  "add_unique urls [] = urls"
| "add_unique urls (u # us) = add_unique (if u \<in> set urls then urls else urls @ [u]) us"

text \<open>\<^verbatim>\<open>_find_urls_in_text\<close> on a string.\<close>

definition find_urls_str :: "text_env \<Rightarrow> string \<Rightarrow> string list" where
  "find_urls_str env t =
     add_unique (add_unique [] (findall_bili env t))
       (concat (map (findall_bili env) (query_values env t)))"

text \<open>
  \<^verbatim>\<open>_find_urls_in_text\<close> on any value. \<^verbatim>\<open>BILI_URL_RE.findall(text or "")\<close> stands outside
  the \<^verbatim>\<open>try\<close> block and raises TypeError on a value that is true and not a string:
  the result \<open>None\<close>. A false value is searched as the empty string, and parsing it
  contributes nothing.
\<close>

definition find_urls_in_text :: "text_env \<Rightarrow> pyval \<Rightarrow> string list option" where
  "find_urls_in_text env text =
     (case text of
        PStr t \<Rightarrow> Some (find_urls_str env t)
      | v \<Rightarrow> if truthy v then None else Some (add_unique [] (findall_bili env [])))"

text \<open>\<^verbatim>\<open>_walk_strings\<close>: the string leaves of a decoded value, dictionary keys left out.\<close>

fun walk_strings :: "pyval \<Rightarrow> string list" where
  "walk_strings (PDict kvs) = concat (map (\<lambda>kv. walk_strings (snd kv)) kvs)"
| "walk_strings (PList xs) = concat (map walk_strings xs)"
| "walk_strings (PStr t) = [t]"
| "walk_strings v = []"

text \<open>
  A message segment: its type, its \<^verbatim>\<open>data\<close> dictionary, and its rendering \<^verbatim>\<open>str(seg)\<close>.
\<close>

record segment =
  seg_type :: string
  seg_data :: "(string \<times> pyval) list"
  rendered :: string

text \<open>
  One pass of the body of \<^verbatim>\<open>for seg in event.message\<close>, lines 250 to 290, from the
  list collected so far; \<open>None\<close> when an exception leaves the loop. The only handler
  inside the loop is the one around \<^verbatim>\<open>json.loads\<close> and the walk, lines 262 to 269.
\<close>

definition scan_segment :: "text_env \<Rightarrow> segment \<Rightarrow> string list \<Rightarrow> string list option" where
  "scan_segment env seg urls =
     (if seg_type seg = ''text'' then
        (case find_urls_in_text env (dict_get_default (seg_data seg) ''text'' (PStr [])) of
           None \<Rightarrow> None
         | Some us \<Rightarrow> Some (add_unique urls us))
      else if seg_type seg = ''json'' then
        (let raw = py_or (py_or (dict_get (seg_data seg) ''data'')
                                (dict_get (seg_data seg) ''content'')) (PStr [])
         in case find_urls_in_text env raw of
              None \<Rightarrow> None
            | Some us \<Rightarrow>
                (let urls1 = add_unique urls us
                 in case raw of
                      PStr t \<Rightarrow>
                        (case json_loads env t of
                           None \<Rightarrow> Some urls1
                         | Some obj \<Rightarrow>
                             Some (add_unique urls1
                                     (concat (map (find_urls_str env) (walk_strings obj)))))
                    | _ \<Rightarrow> Some urls1))
      else if seg_type seg = ''xml'' then
        (let raw = py_or (py_or (dict_get (seg_data seg) ''data'')
                                (dict_get (seg_data seg) ''content'')) (PStr [])
         in case find_urls_in_text env raw of
              None \<Rightarrow> None
            | Some us \<Rightarrow> Some (add_unique urls us))
      else if seg_type seg = ''share'' then
        (let u = py_or (dict_get (seg_data seg) ''url'') (PStr [])
         in case find_urls_in_text env u of
              None \<Rightarrow> None
            | Some us \<Rightarrow> Some (add_unique urls us))
      else
        (case find_urls_in_text env (PStr (rendered seg)) of
           None \<Rightarrow> None
         | Some us \<Rightarrow> Some (add_unique urls us)))"

text \<open>
  The loop over the segments. The first component tells whether the loop ran to its end;
  when it did not, the second is the list as it stood when the exception was raised.
\<close>

fun scan_segments :: "text_env \<Rightarrow> segment list \<Rightarrow> string list \<Rightarrow> bool \<times> string list" where
  "scan_segments env [] urls = (True, urls)"
| "scan_segments env (seg # segs) urls =
     (case scan_segment env seg urls of
        None \<Rightarrow> (False, urls)
      | Some urls' \<Rightarrow> scan_segments env segs urls')"

text \<open>
  An event: its segments and its plain text (\<open>None\<close> when \<^verbatim>\<open>get_plaintext\<close> raises, which
  line 294 turns into the empty string).
\<close>

record event =
  message :: "segment list"
  plaintext :: "string option"

definition av_prefix :: string where
  "av_prefix = ''https://www.bilibili.com/video/av''"

text \<open>
  The whole function. An exception in the loop reaches the handler of line 309, which
  logs it; the function then returns the list collected up to that point, and the two
  scans of the plain text are not run.
\<close>

definition extract_bili_urls_from_event :: "text_env \<Rightarrow> event \<Rightarrow> string list" where
  "extract_bili_urls_from_event env ev =
     (case scan_segments env (message ev) [] of
        (False, urls) \<Rightarrow> urls
      | (True, urls) \<Rightarrow>
          (let full_text = (case plaintext ev of None \<Rightarrow> [] | Some t \<Rightarrow> t);
               urls1 = add_unique urls (map (\<lambda>m. ''av'' @ m) (findall_av env full_text));
               urls2 = add_unique urls1
                         (map (\<lambda>m. av_prefix @ m @ ''/'') (findall_av_url env full_text))
           in urls2))"

text \<open>The value that a segment hands to \<^verbatim>\<open>_find_urls_in_text\<close> first.\<close>

definition payload :: "segment \<Rightarrow> pyval" where
  "payload seg =
     (if seg_type seg = ''text'' then dict_get_default (seg_data seg) ''text'' (PStr [])
      else if seg_type seg = ''json'' \<or> seg_type seg = ''xml'' then
        py_or (py_or (dict_get (seg_data seg) ''data'') (dict_get (seg_data seg) ''content''))
              (PStr [])
      else if seg_type seg = ''share'' then py_or (dict_get (seg_data seg) ''url'') (PStr [])
      else PStr (rendered seg))"

text \<open>A payload that \<^verbatim>\<open>_find_urls_in_text\<close> accepts: a string, or a false value.\<close>

definition payload_ok :: "segment \<Rightarrow> bool" where
  "payload_ok seg = (case payload seg of PStr t \<Rightarrow> True | v \<Rightarrow> \<not> truthy v)"


section \<open>Sample messages\<close>

definition link :: string where
  "link = ''https://www.bilibili.com/video/BV1xx411c7mD''"

text \<open>A stand-in for the library: the pattern finds \<open>link\<close> in the text that is \<open>link\<close>.\<close>

definition toy_env :: text_env where
  "toy_env = \<lparr>findall_bili = (\<lambda>t. if t = link then [link] else []),
              query_values = (\<lambda>t. []), json_loads = (\<lambda>t. None),
              findall_av = (\<lambda>t. []), findall_av_url = (\<lambda>t. [])\<rparr>"

definition text_seg :: segment where
  "text_seg = \<lparr>seg_type = ''text'', seg_data = [(''text'', PStr link)], rendered = link\<rparr>"

definition broken_json_seg :: segment where
  "broken_json_seg =
     \<lparr>seg_type = ''json'', seg_data = [(''data'', PStr ''{oops'')], rendered = ''[json]''\<rparr>"

definition object_json_seg :: segment where
  "object_json_seg =
     \<lparr>seg_type = ''json'', seg_data = [(''data'', PDict [(''app'', PStr ''x'')])],
      rendered = ''[json]''\<rparr>"

definition link2 :: string where
  "link2 = ''https://www.bilibili.com/video/BV17x411w7KC''"

definition link3 :: string where
  "link3 = ''https://www.bilibili.com/video/BV1GJ411x7h7''"

definition link4 :: string where
  "link4 = ''https://www.bilibili.com/video/BV1uT4y1P7CX''"

text \<open>A forwarding address, which carries \<open>link4\<close> in a query parameter.\<close>

definition fwd :: string where
  "fwd = ''https://example.com/jump?url=https%3A%2F%2Fwww.bilibili.com%2Fvideo%2FBV1uT4y1P7CX''"

text \<open>
  A stand-in for the text of a JSON card, and the object that the card decodes to: its
  string leaves are \<open>link3\<close> and \<open>fwd\<close>.
\<close>

definition card :: string where
  "card = ''<card>''"

definition card_obj :: pyval where
  "card_obj =
     PDict [(''meta'', PDict [(''detail'',
        PDict [(''qqdocurl'', PStr link3), (''jump'', PList [PStr fwd, PInt 1])])])]"

text \<open>
  A richer stand-in for the library. The pattern finds each of the four links in the text
  that is that link, and \<open>link\<close> in the text of the card. The card has one forwarded-link
  parameter, whose decoded value is \<open>link2\<close>, and \<open>fwd\<close> has one, whose decoded value is
  \<open>link4\<close>. The card decodes to \<open>card_obj\<close> and nothing else decodes. In the text
  \<^verbatim>\<open>see av170001\<close> the scan for bare tokens finds \<^verbatim>\<open>170001\<close> and the scan for token links
  finds \<^verbatim>\<open>2\<close>.
\<close>

definition card_env :: text_env where
  "card_env =
     \<lparr>findall_bili = (\<lambda>t. if t = card then [link]
                           else if t \<in> {link, link2, link3, link4} then [t] else []),
      query_values = (\<lambda>t. if t = card then [link2] else if t = fwd then [link4] else []),
      json_loads = (\<lambda>t. if t = card then Some card_obj else None),
      findall_av = (\<lambda>t. if t = ''see av170001'' then [''170001''] else []),
      findall_av_url = (\<lambda>t. if t = ''see av170001'' then [''2''] else [])\<rparr>"

definition card_seg :: segment where
  "card_seg = \<lparr>seg_type = ''json'', seg_data = [(''data'', PStr card)], rendered = ''[json]''\<rparr>"

definition sample_event :: event where
  "sample_event = \<lparr>message = [broken_json_seg, card_seg], plaintext = Some ''see av170001''\<rparr>"

section \<open>Verification: identifier codec\<close>

lemma length_table: "length table = 58"
  by (simp add: table_def)

lemma table_index: "py_index table (y mod 58) = Some (table ! nat (y mod 58))"
  by (simp add: py_index_def length_table)

lemma table_member: "table ! nat (y mod 58) \<in> set table"
proof -
  have "nat (y mod 58) < length table"
    by (simp add: length_table nat_less_iff)
  then show ?thesis by (rule nth_mem)
qed

lemma bv_step_eq:
  "bv_step x i r =
     (case py_index s (int i) of
        None \<Rightarrow> None
      | Some p \<Rightarrow> py_setitem r p (table ! nat (x div 58 ^ i mod 58)))"
  by (simp add: bv_step_def table_index split: option.splits)

lemma s_index:
  "py_index s 0 = Some 11" "py_index s 1 = Some 10" "py_index s 2 = Some 3"
  "py_index s 3 = Some 8" "py_index s 4 = Some 4" "py_index s 5 = Some 6"
  by (simp_all add: py_index_def s_def)

lemma bv_loop_closed:
  "bv_loop x [0, 1, 2, 3, 4, 5] template =
     Some [CHR ''B'', CHR ''V'', CHR ''1'',
           table ! nat (x div 58 ^ 2 mod 58), table ! nat (x div 58 ^ 4 mod 58),
           CHR ''4'', table ! nat (x div 58 ^ 5 mod 58), CHR ''1'',
           table ! nat (x div 58 ^ 3 mod 58), CHR ''7'',
           table ! nat (x div 58 ^ 1 mod 58), table ! nat (x div 58 ^ 0 mod 58)]"
  by (simp add: bv_step_eq s_index py_setitem_def template_def)

lemma bili_av_to_bv_closed:
  "bili_av_to_bv aid =
     (let x = (aid XOR xor_c) + add_c in
      Some [CHR ''B'', CHR ''V'', CHR ''1'',
           table ! nat (x div 58 ^ 2 mod 58), table ! nat (x div 58 ^ 4 mod 58),
           CHR ''4'', table ! nat (x div 58 ^ 5 mod 58), CHR ''1'',
           table ! nat (x div 58 ^ 3 mod 58), CHR ''7'',
           table ! nat (x div 58 ^ 1 mod 58), table ! nat (x div 58 ^ 0 mod 58)])"
  unfolding bili_av_to_bv_def Let_def by (rule bv_loop_closed)

lemma truthy_bv: "truthy_str (bili_av_to_bv aid)"
  by (simp add: bili_av_to_bv_closed truthy_str_def Let_def)

text \<open>
  Claim C9. The encoder is a function of its argument alone (the source reads no state and
  performs no I/O, so the model takes no other parameter): equal numeric IDs give equal
  results. For every non-negative numeric ID the result is present, is 12 characters long,
  carries \<^verbatim>\<open>B\<close>, \<^verbatim>\<open>V\<close>, \<^verbatim>\<open>1\<close> at positions 0 to 2, \<^verbatim>\<open>4\<close> at position 5, \<^verbatim>\<open>1\<close> at position 7
  and \<^verbatim>\<open>7\<close> at position 9, and each of the six remaining positions 3, 4, 6, 8, 10 and 11
  holds a character of the 58-character alphabet.
\<close>

theorem encode_template:
  assumes "0 \<le> aid"
  shows "\<exists>r. bili_av_to_bv aid = Some r \<and> length r = 12
           \<and> r ! 0 = CHR ''B'' \<and> r ! 1 = CHR ''V'' \<and> r ! 2 = CHR ''1''
           \<and> r ! 5 = CHR ''4'' \<and> r ! 7 = CHR ''1'' \<and> r ! 9 = CHR ''7''
           \<and> r ! 3 \<in> set table \<and> r ! 4 \<in> set table \<and> r ! 6 \<in> set table
           \<and> r ! 8 \<in> set table \<and> r ! 10 \<in> set table \<and> r ! 11 \<in> set table"
  by (simp add: bili_av_to_bv_closed Let_def table_member)

theorem encode_template_witness:
  "(0::int) \<le> 170001 \<and>
   (\<exists>r. bili_av_to_bv 170001 = Some r \<and> length r = 12
           \<and> r ! 0 = CHR ''B'' \<and> r ! 1 = CHR ''V'' \<and> r ! 2 = CHR ''1''
           \<and> r ! 5 = CHR ''4'' \<and> r ! 7 = CHR ''1'' \<and> r ! 9 = CHR ''7''
           \<and> r ! 3 \<in> set table \<and> r ! 4 \<in> set table \<and> r ! 6 \<in> set table
           \<and> r ! 8 \<in> set table \<and> r ! 10 \<in> set table \<and> r ! 11 \<in> set table)"
  using encode_template [of 170001] by simp

section \<open>Verification: normalizer\<close>

lemma lit_simps: "lit [] = []" "lit (c # cs) = of_char c # lit cs"
  by (simp_all add: lit_def)

lemma strip_with_id:
  assumes "t \<noteq> []" and "\<not> P (hd t)" and "\<not> P (last t)"
  shows "strip_with P t = t"
proof -
  from assms(1,2) have a: "dropWhile P t = t"
    by (cases t) simp_all
  obtain x xs where r: "rev t = x # xs"
    using assms(1) by (cases "rev t") simp_all
  then have "x = last t"
    using hd_rev [of t] by simp
  with assms(3) have "dropWhile P (x # xs) = x # xs"
    by simp
  then have "dropWhile P (rev t) = rev t"
    unfolding r .
  with a show ?thesis
    by (simp add: strip_with_def)
qed

lemma decimal_facts:
  assumes "is_decimal db c"
  shows "\<not> int_pad c" and "c \<noteq> 95" and "c \<noteq> 45" and "c \<noteq> 43" and "\<not> is_space c"
  using assms
  by (auto simp: is_decimal_def decimal_of_def int_pad_def is_space_def split: if_splits)

lemma digits_ok_all:
  "list_all (is_decimal db) ds \<Longrightarrow> ds \<noteq> [] \<Longrightarrow> digits_ok db ds"
proof (induction db ds rule: digits_ok.induct)
  case (1 db)
  then show ?case by simp
next
  case (2 db c)
  then show ?case by simp
next
  case (3 db c d cs)
  then show ?case
    using decimal_facts(2) [of db d] by auto
qed

lemma filter_underscore_digits:
  "list_all (is_decimal db) ds \<Longrightarrow> filter (\<lambda>x. x \<noteq> 95) ds = ds"
  by (induction ds) (auto dest: decimal_facts(2))

lemma py_int_digits:
  assumes "list_all (is_decimal db) ds" and "ds \<noteq> []"
  shows "py_int db ds =
           (if int_max_str_digits < length ds then None else Some (int_of_digits db ds))"
proof -
  obtain c cs where ds: "ds = c # cs"
    using assms(2) by (cases ds) auto
  have h: "is_decimal db (hd ds)" and l: "is_decimal db (last ds)"
    using assms by (auto simp: list_all_iff)
  have s: "strip_with int_pad ds = ds"
    using assms(2) h l by (intro strip_with_id) (auto dest: decimal_facts(1))
  have c: "c \<noteq> 45" "c \<noteq> 43"
    using h ds by (auto dest: decimal_facts)
  show ?thesis
    using s c ds digits_ok_all [OF assms] filter_underscore_digits [OF assms(1)]
    by (simp add: py_int_def)
qed



lemma digit_val_nonneg: "0 \<le> digit_val db c"
  by (simp add: digit_val_def split: option.splits)

lemma int_of_digits_nonneg: "0 \<le> int_of_digits db ds"
  by (induction ds rule: rev_induct) (simp_all add: int_of_digits_def digit_val_nonneg)

lemma digit_val_ascii: "48 \<le> c \<Longrightarrow> c \<le> 57 \<Longrightarrow> digit_val db c = int c - 48"
  by (simp add: digit_val_def decimal_of_def)

lemma fullmatch_av_digits:
  "fullmatch_av db u = Some ds \<Longrightarrow> ds \<noteq> [] \<and> list_all (is_decimal db) ds"
  by (auto simp: fullmatch_av_def split: list.splits if_splits)

lemma py_strip_keeps_head:
  assumes "\<not> is_space h" and "py_strip (h # r) = c # cs"
  shows "c = h"
proof -
  have "dropWhile is_space (rev r @ [h]) = dropWhile is_space (rev r) @ [h]"
    using assms(1) by (simp add: dropWhile_append3)
  then have "py_strip (h # r) = h # rev (dropWhile is_space (rev r))"
    using assms(1) by (simp add: py_strip_def strip_with_def)
  with assms(2) show ?thesis by simp
qed

lemma normalize_bare:
  assumes "fullmatch_av db (py_strip raw) = Some ds"
  shows "normalize_bili_url db env raw =
           (if int_max_str_digits < length ds then Inl ValueError
            else Inr (lit (video_prefix @ the (bili_av_to_bv (int_of_digits db ds)))))"
proof -
  from fullmatch_av_digits [OF assms] have "py_int db ds =
      (if int_max_str_digits < length ds then None else Some (int_of_digits db ds))"
    by (simp add: py_int_digits)
  with assms show ?thesis
    by (simp add: normalize_bili_url_def Let_def truthy_bv)
qed

lemma lit_av: "lit ''av170001'' = [97, 118, 49, 55, 48, 48, 48, 49]" "lit ''av2'' = [97, 118, 50]"
  by (simp_all add: lit_simps)

lemma ascii_digit: "48 \<le> c \<Longrightarrow> c \<le> 57 \<Longrightarrow> is_decimal db c"
  by (simp add: is_decimal_def decimal_of_def)

lemma match_av170001:
  "fullmatch_av db (py_strip (lit ''av170001'')) = Some [49, 55, 48, 48, 48, 49]"
  by (simp add: lit_av py_strip_def strip_with_def is_space_def fullmatch_av_def ascii_digit)






lemma match_long_av: "fullmatch_av db (py_strip long_av) = Some (replicate 4301 49)"
proof -
  have "\<not> is_space 97" "\<not> is_space 49"
    by (simp_all add: is_space_def)
  then have "py_strip long_av = long_av"
    unfolding py_strip_def long_av_def
    by (intro strip_with_id) simp_all
  then show ?thesis
    by (simp add: long_av_def fullmatch_av_def list_all_iff ascii_digit)
qed



text \<open>
  Claim C10. For every non-negative numeric ID each digit \<^verbatim>\<open>x // 58**i % 58\<close> is a valid
  index into the 58-character alphabet, so the encoder returns a present, non-empty
  string and its exception branch is not reached. Hence for an input whose stripped form
  is \<^verbatim>\<open>av<digits>\<close> the normalizer never takes the fallback that returns \<open>raw\<close>: it
  returns the constructed URL when the conversion of the digits succeeds (at most 4300
  digits), and otherwise the conversion raises before the encoder is called.
\<close>

theorem encode_never_absent:
  "(0 \<le> aid \<longrightarrow>
      (\<forall>i. 0 \<le> ((aid XOR xor_c) + add_c) div 58 ^ i mod 58
          \<and> ((aid XOR xor_c) + add_c) div 58 ^ i mod 58 < int (length table))
      \<and> (\<exists>bv. bili_av_to_bv aid = Some bv \<and> bv \<noteq> []))
   \<and> (fullmatch_av db (py_strip raw) = Some ds \<longrightarrow>
        0 \<le> int_of_digits db ds
        \<and> normalize_bili_url db env raw \<noteq> Inr raw
        \<and> (length ds \<le> int_max_str_digits \<longrightarrow>
              normalize_bili_url db env raw
                = Inr (lit (video_prefix @ the (bili_av_to_bv (int_of_digits db ds)))))
        \<and> (int_max_str_digits < length ds \<longrightarrow> normalize_bili_url db env raw = Inl ValueError))"
proof -
  have enc: "\<exists>bv. bili_av_to_bv aid = Some bv \<and> bv \<noteq> []"
    by (simp add: bili_av_to_bv_closed Let_def)
  have idx: "\<forall>i. 0 \<le> ((aid XOR xor_c) + add_c) div 58 ^ i mod 58
          \<and> ((aid XOR xor_c) + add_c) div 58 ^ i mod 58 < int (length table)"
    by (simp add: length_table)
  have norm: "0 \<le> int_of_digits db ds
        \<and> normalize_bili_url db env raw \<noteq> Inr raw
        \<and> (length ds \<le> int_max_str_digits \<longrightarrow>
              normalize_bili_url db env raw
                = Inr (lit (video_prefix @ the (bili_av_to_bv (int_of_digits db ds)))))
        \<and> (int_max_str_digits < length ds \<longrightarrow> normalize_bili_url db env raw = Inl ValueError)"
    if m: "fullmatch_av db (py_strip raw) = Some ds"
  proof -
    note eq = normalize_bare [OF m, where env = env]
    have "normalize_bili_url db env raw \<noteq> Inr raw"
    proof
      assume same: "normalize_bili_url db env raw = Inr raw"
      with eq have "raw = lit (video_prefix @ the (bili_av_to_bv (int_of_digits db ds)))"
        by (simp split: if_splits)
      then obtain t where "raw = 104 # t"
        by (simp add: video_prefix_def lit_simps)
      moreover obtain a v where "py_strip raw = a # v # ds" "a = 97 \<or> a = 65"
        using m by (auto simp: fullmatch_av_def split: list.splits if_splits)
      moreover have "\<not> is_space 104"
        by (simp add: is_space_def)
      ultimately show False
        using py_strip_keeps_head [of 104 t a "v # ds"] by auto
    qed
    with eq show ?thesis
      by (simp add: int_of_digits_nonneg)
  qed
  from enc idx norm show ?thesis by blast
qed

theorem encode_never_absent_witness:
  "((0::int) \<le> 170001 \<and>
      (\<forall>i. 0 \<le> ((170001 XOR xor_c) + add_c) div 58 ^ i mod 58
          \<and> ((170001 XOR xor_c) + add_c) div 58 ^ i mod 58 < int (length table))
      \<and> (\<exists>bv. bili_av_to_bv 170001 = Some bv \<and> bv \<noteq> []))
   \<and> fullmatch_av ascii_db (py_strip (lit ''av170001'')) = Some [49, 55, 48, 48, 48, 49]
   \<and> length [49, 55, 48, 48, 48, 49 :: nat] \<le> int_max_str_digits
   \<and> normalize_bili_url ascii_db offline (lit ''av170001'') \<noteq> Inr (lit ''av170001'')
   \<and> normalize_bili_url ascii_db offline (lit ''av170001'')
        = Inr (lit (video_prefix
                     @ the (bili_av_to_bv (int_of_digits ascii_db [49, 55, 48, 48, 48, 49]))))
   \<and> fullmatch_av ascii_db (py_strip long_av) = Some (replicate 4301 49)
   \<and> int_max_str_digits < length (replicate 4301 (49 :: nat))
   \<and> normalize_bili_url ascii_db offline long_av \<noteq> Inr long_av
   \<and> normalize_bili_url ascii_db offline long_av = Inl ValueError"
proof -
  have p: "(0::int) \<le> 170001"
    by simp
  have l1: "length [49, 55, 48, 48, 48, 49 :: nat] \<le> int_max_str_digits"
    by (simp add: int_max_str_digits_def)
  have l2: "int_max_str_digits < length (replicate 4301 (49 :: nat))"
    by (simp add: int_max_str_digits_def)
  note a = encode_never_absent [of 170001 ascii_db "lit ''av170001''" "[49, 55, 48, 48, 48, 49]"
              offline]
  note b = encode_never_absent [of 170001 ascii_db long_av "replicate 4301 49" offline]
  from p l1 l2 a b match_av170001 [of ascii_db] match_long_av [of ascii_db] show ?thesis
    by blast
qed




section \<open>Verification: path remapping\<close>

lemma mapping_loop_step:
  "mapping_loop env (e # rest) path d =
     (if entry_matches env path e then apply_entry env path e
      else mapping_loop env rest path d)"
  by (cases e) (simp add: entry_matches_def apply_entry_def split: option.splits)

lemma mapping_loop_find:
  "mapping_loop env tbl path d =
     (case find (entry_matches env path) tbl of
        None \<Rightarrow> d
      | Some e \<Rightarrow> apply_entry env path e)"
proof (induction tbl)
  case Nil
  show ?case by simp
next
  case (Cons e rest)
  show ?case
    unfolding mapping_loop_step using Cons.IH by simp
qed

text \<open>
  Claim C5 (as amended). The table is scanned in insertion order and the first entry whose
  resolved real path is a string prefix of the resolved file path is applied; with no such
  entry the path is sent as it is.
\<close>

theorem send_path_first_match:
  "send_path_of env path_mappings path =
     (case find (entry_matches env path) path_mappings of
        None \<Rightarrow> path_str env path
      | Some e \<Rightarrow> apply_entry env path e)"
  unfolding send_path_of_def by (rule mapping_loop_find)

text \<open>
  The claim as worded fails: with the entries \<^verbatim>\<open>/v1 -> /data\<close> and
  \<^verbatim>\<open>/v2 -> /data/videos\<close> in that order both match \<^verbatim>\<open>/data/videos/a.mp4\<close>; the longest
  prefix would give \<^verbatim>\<open>/v2/a.mp4\<close>, the code gives \<^verbatim>\<open>/v1/videos/a.mp4\<close>.
\<close>

theorem send_path_not_longest_prefix:
  "entry_matches \<lparr>resolve = Some, path_str = id\<rparr> ''/data/videos/a.mp4'' (''/v1'', ''/data'')
   \<and> entry_matches \<lparr>resolve = Some, path_str = id\<rparr> ''/data/videos/a.mp4'' (''/v2'', ''/data/videos'')
   \<and> send_path_of \<lparr>resolve = Some, path_str = id\<rparr>
        [(''/v1'', ''/data''), (''/v2'', ''/data/videos'')] ''/data/videos/a.mp4''
      = ''/v1/videos/a.mp4''
   \<and> spec_longest_prefix_path \<lparr>resolve = Some, path_str = id\<rparr>
        [(''/v1'', ''/data''), (''/v2'', ''/data/videos'')] ''/data/videos/a.mp4''
      = ''/v2/a.mp4''"
  by (simp add: send_path_of_def spec_longest_prefix_path_def entry_matches_def apply_entry_def
        real_length_def virtual_path_def to_slashes_def rstrip_slash_def backslash_def)

section \<open>Verification: validator\<close>

lemma check_video_file_fst:
  "fst (check_video_file db run mh path w) =
     (path_exists w path \<and> run path w \<noteq> Launch_failed \<and> \<not> too_tall db mh (run path w))"
  by (auto simp: check_video_file_def too_tall_def reported_height_def
           split: proc.splits list.splits option.splits)

lemma check_video_file_accepts:
  "path_exists w path \<Longrightarrow> run path w = Completed rc out \<Longrightarrow>
   reported_height db (Completed rc out) = None \<Longrightarrow> check_video_file db run mh path w = (True, w)"
  by (auto simp: check_video_file_def reported_height_def
           split: proc.splits list.splits option.splits if_splits)

lemma check_video_file_deletes:
  "path_exists w path \<Longrightarrow> too_tall db mh (run path w) \<Longrightarrow> unlink w path = Some w' \<Longrightarrow>
   check_video_file db run mh path w = (False, w') \<and> \<not> path_exists w' path"
  by (auto simp: check_video_file_def too_tall_def reported_height_def unlink_def path_exists_def
           split: proc.splits list.splits option.splits if_splits)

lemma check_video_file_world:
  "snd (check_video_file db run mh path w) = w
   \<or> unlink w path = Some (snd (check_video_file db run mh path w))"
  by (auto simp: check_video_file_def split: proc.splits list.splits option.splits if_splits)

lemma split_1080: "split_on 44 (py_strip out_1080) = [lit ''1920'', lit ''1080'']"
  by (simp add: out_1080_def lit_simps py_strip_def strip_with_def is_space_def)

lemma split_sep: "split_on 44 (py_strip out_sep) = [lit ''1920'', 28 # lit ''1080'']"
  by (simp add: out_sep_def lit_simps py_strip_def strip_with_def is_space_def)

lemma split_long: "split_on 44 (py_strip out_long) = [lit ''1920'', replicate 4301 57]"
proof -
  have "\<not> is_space 49" "\<not> is_space 57"
    by (simp_all add: is_space_def)
  then have "py_strip out_long = out_long"
    unfolding py_strip_def out_long_def
    by (intro strip_with_id) (simp_all add: lit_simps)
  moreover have "split_on 44 (replicate n 57) = [replicate n (57 :: nat)]" for n
    by (induction n) simp_all
  ultimately show ?thesis
    by (simp add: out_long_def lit_simps)
qed

lemma int_1080: "py_int db (lit ''1080'') = Some 1080"
  by (simp add: lit_simps py_int_def strip_with_def int_pad_def ascii_digit is_space_def
        int_max_str_digits_def int_of_digits_def digit_val_ascii)

lemma int_sep: "py_int db (28 # lit ''1080'') = None"
  by (simp add: lit_simps py_int_def strip_with_def int_pad_def is_space_def is_decimal_def
        decimal_of_def)

lemma int_long: "py_int db (replicate 4301 57) = None"
proof -
  have "list_all (is_decimal db) (replicate 4301 57)"
    by (simp add: list_all_iff ascii_digit)
  then show ?thesis
    by (simp add: py_int_digits int_max_str_digits_def)
qed

lemma heights:
  "reported_height db (Completed 0 out_1080) = Some 1080"
  "reported_height db (Completed 0 out_sep) = None"
  "reported_height db (Completed 0 out_long) = None"
  "reported_height db (Completed 1 out_1080) = None"
  by (simp_all add: reported_height_def split_1080 split_sep split_long int_1080 int_sep int_long)


text \<open>
  Claim C7 (as amended). For a path naming an existing file: when the inspection tool
  runs and exits with a non-zero status, or prints output that does not parse as
  \<^verbatim>\<open>width,height\<close>, the file is accepted and left alone; a height written with a
  separator character in front or with 4301 digits is such an output. The verdict is
  false exactly when the file does not exist, when the tool cannot be launched, or when a
  height limit is configured and the parsed height exceeds it; in the last case the file
  is removed when its deletion succeeds. The validator changes the disk in no other way.
\<close>

theorem check_video_file_verdict:
  "(path_exists w path \<and> run path w = Completed rc out
      \<and> reported_height db (Completed rc out) = None
      \<longrightarrow> check_video_file db run max_height path w = (True, w))
   \<and> (fst (check_video_file db run max_height path w) = False
        \<longleftrightarrow> (\<not> path_exists w path \<or> run path w = Launch_failed
              \<or> too_tall db max_height (run path w)))
   \<and> (path_exists w path \<and> too_tall db max_height (run path w) \<and> unlink w path = Some w'
      \<longrightarrow> check_video_file db run max_height path w = (False, w') \<and> \<not> path_exists w' path)
   \<and> (snd (check_video_file db run max_height path w) = w
        \<or> unlink w path = Some (snd (check_video_file db run max_height path w)))
   \<and> reported_height db (Completed 0 out_1080) = Some 1080
   \<and> reported_height db (Completed 0 out_sep) = None
   \<and> reported_height db (Completed 0 out_long) = None
   \<and> reported_height db (Completed 1 out_1080) = None"
  using check_video_file_fst [of db run max_height path w]
        check_video_file_accepts [of w path run rc out db max_height]
        check_video_file_deletes [of w path db max_height run w']
        check_video_file_world [of db run max_height path w]
        heights [of db]
  by blast

theorem check_video_file_verdict_witness:
  "path_exists (disk_with ''a.mp4'' file_a) ''a.mp4''
   \<and> reported_height ascii_db (Completed 0 out_sep) = None
   \<and> check_video_file ascii_db (\<lambda>p w. Completed 0 out_sep) 720 ''a.mp4''
        (disk_with ''a.mp4'' file_a) = (True, disk_with ''a.mp4'' file_a)
   \<and> reported_height ascii_db (Completed 1 out_1080) = None
   \<and> check_video_file ascii_db (\<lambda>p w. Completed 1 out_1080) 720 ''a.mp4''
        (disk_with ''a.mp4'' file_a) = (True, disk_with ''a.mp4'' file_a)
   \<and> too_tall ascii_db 720 (Completed 0 out_1080)
   \<and> unlink (disk_with ''a.mp4'' file_a) ''a.mp4'' = Some empty_disk
   \<and> check_video_file ascii_db (\<lambda>p w. Completed 0 out_1080) 720 ''a.mp4''
        (disk_with ''a.mp4'' file_a) = (False, empty_disk)
   \<and> \<not> path_exists empty_disk ''a.mp4''"
proof -
  let ?w = "disk_with ''a.mp4'' file_a"
  have e: "path_exists ?w ''a.mp4''"
    by (simp add: path_exists_def disk_with_def)
  have r1: "reported_height ascii_db (Completed 0 out_sep) = None"
    and r2: "reported_height ascii_db (Completed 1 out_1080) = None"
    by (simp_all add: heights)
  have t: "too_tall ascii_db 720 (Completed 0 out_1080)"
    by (simp add: too_tall_def heights)
  have u: "unlink ?w ''a.mp4'' = Some empty_disk"
    by (simp add: unlink_def disk_with_def file_a_def empty_disk_def)
  have c1: "check_video_file ascii_db (\<lambda>p w. Completed 0 out_sep) 720 ''a.mp4'' ?w = (True, ?w)"
    using e r1 check_video_file_verdict
            [of ?w "''a.mp4''" "\<lambda>p w. Completed 0 out_sep" 0 out_sep ascii_db 720 empty_disk]
    by blast
  have c2: "check_video_file ascii_db (\<lambda>p w. Completed 1 out_1080) 720 ''a.mp4'' ?w = (True, ?w)"
    using e r2 check_video_file_verdict
            [of ?w "''a.mp4''" "\<lambda>p w. Completed 1 out_1080" 1 out_1080 ascii_db 720 empty_disk]
    by blast
  have c3: "check_video_file ascii_db (\<lambda>p w. Completed 0 out_1080) 720 ''a.mp4'' ?w
              = (False, empty_disk) \<and> \<not> path_exists empty_disk ''a.mp4''"
    using e t u check_video_file_verdict
            [of ?w "''a.mp4''" "\<lambda>p w. Completed 0 out_1080" 0 out_1080 ascii_db 720 empty_disk]
    by blast
  from e r1 r2 t u c1 c2 c3 show ?thesis by blast
qed

text \<open>
  The claim as worded fails twice: with no height limit, an existing file is rejected
  when the tool cannot be launched; and a file that is too tall but cannot be deleted is
  rejected and stays on disk.
\<close>

theorem check_video_file_rejects_on_launch_failure:
  "path_exists (disk_with ''a.mp4'' file_a) ''a.mp4''
   \<and> check_video_file ascii_db (\<lambda>p w. Launch_failed) 0 ''a.mp4'' (disk_with ''a.mp4'' file_a)
      = (False, disk_with ''a.mp4'' file_a)
   \<and> check_video_file ascii_db (\<lambda>p w. Completed 0 out_1080) 720 ''b.mp4''
        (disk_with ''b.mp4'' file_locked)
      = (False, disk_with ''b.mp4'' file_locked)
   \<and> path_exists (disk_with ''b.mp4'' file_locked) ''b.mp4''"
  by (simp add: check_video_file_def path_exists_def unlink_def file_locked_def disk_with_def
        split_1080 int_1080)

section \<open>Verification: rendition selector\<close>

lemma bit_length_bound: "n < 2 ^ k \<Longrightarrow> bit_length n \<le> k"
proof (induction k arbitrary: n)
  case 0
  then show ?case by (simp add: bit_length.simps)
next
  case (Suc k)
  show ?case
  proof (cases "n = 0")
    case True
    then show ?thesis by (simp add: bit_length.simps)
  next
    case False
    from Suc.prems have "n div 2 < 2 ^ k"
      by simp
    from Suc.IH [OF this] False show ?thesis
      by (subst bit_length.simps) simp
  qed
qed

lemma round53_small: "n < 2 ^ 53 \<Longrightarrow> round53 n = n"
  using bit_length_bound [of n 53] by (simp add: round53_def Let_def)

lemma div_mb_small:
  assumes "\<bar>b\<bar> < 2 ^ 53"
  shows "div_mb b = Some (of_int b / mb)"
proof -
  have n: "nat \<bar>b\<bar> < 2 ^ 53"
    using assms by (simp add: nat_less_iff)
  then have r: "round53 (nat \<bar>b\<bar>) = nat \<bar>b\<bar>"
    by (rule round53_small)
  have "(2::nat) ^ 53 \<le> 2 ^ 1044"
    by (rule power_increasing) simp_all
  with n have lt: "\<not> nat \<bar>b\<bar> \<ge> 2 ^ 1044"
    by linarith
  have "(of_int (sgn b) :: rat) * of_nat (nat \<bar>b\<bar>) = of_int (sgn b * \<bar>b\<bar>)"
    by simp
  also have "\<dots> = of_int b"
    by (simp add: mult_sgn_abs)
  finally have v: "(of_int (sgn b) :: rat) * of_nat (nat \<bar>b\<bar>) = of_int b" .
  show ?thesis
    unfolding div_mb_def Let_def r using lt v by simp
qed


lemma eligible_no_estimate:
  "filesize_bytes f = None \<Longrightarrow> eligible L S f = (\<not> height_skip L f)"
  by (simp add: eligible_def size_precheck_def log_estimate_def)

lemma loop_body_eligible:
  "eligible L S f \<Longrightarrow> loop_body ydl L S f st = attempt ydl S f st"
  by (simp add: loop_body_def eligible_def)

lemma loop_body_height_skip:
  "height_skip L f \<Longrightarrow> loop_body ydl L S f st = (Next, st)"
  by (simp add: loop_body_def)

lemma loop_body_ineligible:
  "\<not> eligible L S f \<Longrightarrow>
   loop_body ydl L S f st = (Next, st) \<or> (\<exists>e. loop_body ydl L S f st = (Raise e, st))"
  by (auto simp: loop_body_def eligible_def split: sum.splits option.splits bool.splits)

lemma attempt_attempted:
  "attempted (snd (attempt ydl S f st)) = attempted st @ [f]"
  by (auto simp: attempt_def Let_def split: prod.splits dl_outcome.splits option.splits)

lemma attempt_never_raises: "fst (attempt ydl S f st) \<noteq> Raise e"
  by (auto simp: attempt_def Let_def split: prod.splits dl_outcome.splits option.splits)

lemma attempt_failure_recorded:
  "attempt ydl S f st = (Next, st') \<Longrightarrow> last_err st' \<noteq> None"
  by (auto simp: attempt_def Let_def split: prod.splits dl_outcome.splits option.splits if_splits)

text \<open>The attempt, once the engine has reported a file.\<close>

lemma attempt_located:
  assumes "ydl (format_id f) (disk st1) = (Located (Some p), w1)"
  shows "attempt ydl S f st1 =
           (if p = [] \<or> \<not> path_exists w1 p
            then (Next, st1\<lparr>disk := w1, attempted := attempted st1 @ [f],
                            last_err := Some FileNotFound\<rparr>)
            else if S = 0 \<or> (case stat_size w1 p of
                               None \<Rightarrow> True
                             | Some sz \<Rightarrow> (case div_mb (int sz) of
                                            None \<Rightarrow> True
                                          | Some q \<Rightarrow> q \<le> of_int S))
            then (Done p, st1\<lparr>disk := w1, attempted := attempted st1 @ [f]\<rparr>)
            else (Next, st1\<lparr>disk := (case unlink w1 p of None \<Rightarrow> w1 | Some w2 \<Rightarrow> w2),
                            attempted := attempted st1 @ [f],
                            last_err := Some FileOverLimit\<rparr>))"
  using assms by (simp add: attempt_def Let_def split: option.splits)

lemma attempt_not_located:
  assumes "ydl (format_id f) (disk st1) = (outcome, w1)" and "\<forall>p. outcome \<noteq> Located (Some p)"
  shows "attempt ydl S f st1 =
           (Next, st1\<lparr>disk := w1, attempted := attempted st1 @ [f],
                       last_err := Some (case outcome of
                                           DownloadError e \<Rightarrow> EngineError e
                                         | OtherError e \<Rightarrow> EngineError e
                                         | Located x \<Rightarrow> FileNotFound)\<rparr>)"
  using assms by (cases outcome) (simp_all add: attempt_def split: option.splits)

text \<open>What a successful attempt is, in terms of the engine's answer and the disk.\<close>

lemma attempt_done_iff:
  "attempt ydl S f st1 = (Done p, st) \<longleftrightarrow>
     (\<exists>w2. ydl (format_id f) (disk st1) = (Located (Some p), w2)
        \<and> p \<noteq> [] \<and> path_exists w2 p
        \<and> (S = 0 \<or> (case stat_size w2 p of
                       None \<Rightarrow> True
                     | Some sz \<Rightarrow> (case div_mb (int sz) of
                                    None \<Rightarrow> True
                                  | Some q \<Rightarrow> q \<le> of_int S)))
        \<and> st = st1\<lparr>disk := w2, attempted := attempted st1 @ [f]\<rparr>)"
  (is "?lhs \<longleftrightarrow> ?rhs")
proof
  assume l: ?lhs
  obtain outcome w1 where o: "ydl (format_id f) (disk st1) = (outcome, w1)"
    by (cases "ydl (format_id f) (disk st1)")
  have "\<exists>p'. outcome = Located (Some p')"
  proof (rule ccontr)
    assume "\<not> (\<exists>p'. outcome = Located (Some p'))"
    then have "\<forall>p'. outcome \<noteq> Located (Some p')"
      by blast
    from attempt_not_located [of ydl f st1 outcome w1 S, OF o this] l show False
      by simp
  qed
  then obtain p' where p': "outcome = Located (Some p')"
    by blast
  note eq = attempt_located [of ydl f st1 p' w1 S, OF o [unfolded p']]
  have c1: "\<not> (p' = [] \<or> \<not> path_exists w1 p')"
    using eq l by (cases "p' = [] \<or> \<not> path_exists w1 p'") simp_all
  let ?W = "S = 0 \<or> (case stat_size w1 p' of
                       None \<Rightarrow> True
                     | Some sz \<Rightarrow> (case div_mb (int sz) of
                                    None \<Rightarrow> True
                                  | Some q \<Rightarrow> q \<le> of_int S))"
  have c2: ?W
  proof (rule ccontr)
    assume "\<not> ?W"
    with eq c1 have "fst (attempt ydl S f st1) = Next"
      by simp
    with l show False by simp
  qed
  from eq c1 c2 have "attempt ydl S f st1
      = (Done p', st1\<lparr>disk := w1, attempted := attempted st1 @ [f]\<rparr>)"
    by simp
  with l have e: "p' = p" "st = st1\<lparr>disk := w1, attempted := attempted st1 @ [f]\<rparr>"
    by simp_all
  from o p' e c1 c2 show ?rhs
    by blast
next
  assume ?rhs
  then obtain w2 where
    r: "ydl (format_id f) (disk st1) = (Located (Some p), w2)" "p \<noteq> []" "path_exists w2 p"
       "S = 0 \<or> (case stat_size w2 p of
                       None \<Rightarrow> True
                     | Some sz \<Rightarrow> (case div_mb (int sz) of
                                    None \<Rightarrow> True
                                  | Some q \<Rightarrow> q \<le> of_int S))"
       "st = st1\<lparr>disk := w2, attempted := attempted st1 @ [f]\<rparr>"
    by blast
  from attempt_located [of ydl f st1 p w2 S, OF r(1)] r(2) r(3) r(4) r(5) show ?lhs
    by simp
qed

text \<open>What a failed attempt records, in terms of the engine's answer and the disk.\<close>

lemma attempt_next_detail:
  assumes "attempt ydl S f st1 = (Next, st')"
  shows "\<exists>outcome w2.
           ydl (format_id f) (disk st1) = (outcome, w2)
         \<and> last_err st' =
             Some (case outcome of
                     DownloadError e \<Rightarrow> EngineError e
                   | OtherError e \<Rightarrow> EngineError e
                   | Located None \<Rightarrow> FileNotFound
                   | Located (Some p) \<Rightarrow>
                       if p = [] \<or> \<not> path_exists w2 p then FileNotFound else FileOverLimit)
         \<and> (\<forall>p. outcome = Located (Some p) \<and> p \<noteq> [] \<and> path_exists w2 p \<longrightarrow>
                S \<noteq> 0 \<and> (\<exists>sz q. stat_size w2 p = Some sz \<and> div_mb (int sz) = Some q
                                  \<and> of_int S < q))"
proof -
  obtain outcome w1 where o: "ydl (format_id f) (disk st1) = (outcome, w1)"
    by (cases "ydl (format_id f) (disk st1)")
  let ?d = "case outcome of
                     DownloadError e \<Rightarrow> EngineError e
                   | OtherError e \<Rightarrow> EngineError e
                   | Located None \<Rightarrow> FileNotFound
                   | Located (Some p) \<Rightarrow>
                       if p = [] \<or> \<not> path_exists w1 p then FileNotFound else FileOverLimit"
  have main: "last_err st' = Some ?d
         \<and> (\<forall>p. outcome = Located (Some p) \<and> p \<noteq> [] \<and> path_exists w1 p \<longrightarrow>
                S \<noteq> 0 \<and> (\<exists>sz q. stat_size w1 p = Some sz \<and> div_mb (int sz) = Some q
                                  \<and> of_int S < q))"
  proof (cases "\<exists>p'. outcome = Located (Some p')")
    case False
    then have n: "\<forall>p'. outcome \<noteq> Located (Some p')"
      by blast
    from attempt_not_located [of ydl f st1 outcome w1 S, OF o n] assms
    have "last_err st' = Some (case outcome of
                                           DownloadError e \<Rightarrow> EngineError e
                                         | OtherError e \<Rightarrow> EngineError e
                                         | Located x \<Rightarrow> FileNotFound)"
      by auto
    with n show ?thesis
      by (cases outcome) (auto split: option.splits)
  next
    case True
    then obtain p' where p': "outcome = Located (Some p')"
      by blast
    note eq = attempt_located [of ydl f st1 p' w1 S, OF o [unfolded p']]
    show ?thesis
    proof (cases "p' = [] \<or> \<not> path_exists w1 p'")
      case True
      with eq assms have "last_err st' = Some FileNotFound"
        by auto
      with True p' show ?thesis by auto
    next
      case False
      let ?W = "S = 0 \<or> (case stat_size w1 p' of
                       None \<Rightarrow> True
                     | Some sz \<Rightarrow> (case div_mb (int sz) of
                                    None \<Rightarrow> True
                                  | Some q \<Rightarrow> q \<le> of_int S))"
      have nw: "\<not> ?W"
      proof
        assume ?W
        with eq False have "fst (attempt ydl S f st1) = Done p'"
          by simp
        with assms show False by simp
      qed
      with eq False assms have le: "last_err st' = Some FileOverLimit"
        by auto
      from nw have s0: "S \<noteq> 0"
        by simp
      from nw obtain sz where sz: "stat_size w1 p' = Some sz"
        by (cases "stat_size w1 p'") simp_all
      from nw sz obtain q where q: "div_mb (int sz) = Some q"
        by (cases "div_mb (int sz)") simp_all
      from nw sz q have "of_int S < q"
        by simp
      with le s0 sz q False p' show ?thesis by auto
    qed
  qed
  with o show ?thesis by blast
qed

lemma select_loop_append:
  "select_loop ydl L S pre st = (Next, st1) \<Longrightarrow>
   select_loop ydl L S (pre @ rest) st = select_loop ydl L S rest st1"
proof (induction pre arbitrary: st)
  case Nil
  then show ?case by simp
next
  case (Cons f pre)
  then show ?case
    by (cases "loop_body ydl L S f st") (auto split: step.splits)
qed

lemma select_loop_cons_next:
  assumes "select_loop ydl L S (f # cs) st = (Next, st')"
  shows "\<exists>st1. loop_body ydl L S f st = (Next, st1) \<and> select_loop ydl L S cs st1 = (Next, st')"
proof (cases "loop_body ydl L S f st")
  case (Pair r st1)
  with assms show ?thesis
    by (cases r) simp_all
qed

lemma loop_body_next_cases:
  assumes "loop_body ydl L S f st = (Next, st1)"
  shows "(eligible L S f \<and> attempt ydl S f st = (Next, st1)) \<or> (\<not> eligible L S f \<and> st1 = st)"
proof (cases "eligible L S f")
  case True
  with assms show ?thesis by (simp add: loop_body_eligible)
next
  case False
  from loop_body_ineligible [OF False, of ydl st] assms False show ?thesis by auto
qed

lemma loop_body_done:
  assumes "loop_body ydl L S f st = (Done p, st1)"
  shows "eligible L S f \<and> attempt ydl S f st = (Done p, st1)"
proof (cases "eligible L S f")
  case True
  with assms show ?thesis by (simp add: loop_body_eligible)
next
  case False
  from loop_body_ineligible [OF False, of ydl st] assms show ?thesis by auto
qed

lemma select_loop_exhausted:
  "select_loop ydl L S cs st = (Next, st') \<Longrightarrow>
   attempted st' = attempted st @ filter (eligible L S) cs"
proof (induction cs arbitrary: st)
  case Nil
  then show ?case by simp
next
  case (Cons f cs)
  from select_loop_cons_next [OF Cons.prems] obtain st1 where
    b: "loop_body ydl L S f st = (Next, st1)" and rest: "select_loop ydl L S cs st1 = (Next, st')"
    by blast
  from loop_body_next_cases [OF b] show ?case
  proof
    assume e: "eligible L S f \<and> attempt ydl S f st = (Next, st1)"
    then have "attempted st1 = attempted st @ [f]"
      using attempt_attempted [of ydl S f st] by simp
    with Cons.IH [OF rest] e show ?thesis by simp
  next
    assume "\<not> eligible L S f \<and> st1 = st"
    with Cons.IH [OF rest] show ?thesis by simp
  qed
qed

lemma select_loop_success:
  "select_loop ydl L S cs st = (Done p, st') \<Longrightarrow>
   \<exists>pre f post st1. cs = pre @ f # post \<and> select_loop ydl L S pre st = (Next, st1)
      \<and> eligible L S f \<and> attempt ydl S f st1 = (Done p, st')"
proof (induction cs arbitrary: st)
  case Nil
  then show ?case by simp
next
  case (Cons g cs)
  show ?case
  proof (cases "loop_body ydl L S g st")
    case (Pair r st1)
    show ?thesis
    proof (cases r)
      case Next
      with Pair Cons.prems have rest: "select_loop ydl L S cs st1 = (Done p, st')"
        by simp
      from Cons.IH [OF rest] obtain pre f post st2 where
        d: "cs = pre @ f # post" "select_loop ydl L S pre st1 = (Next, st2)"
           "eligible L S f" "attempt ydl S f st2 = (Done p, st')"
        by blast
      have "select_loop ydl L S (g # pre) st = (Next, st2)"
        using Pair Next d(2) by simp
      with d have "g # cs = (g # pre) @ f # post \<and> select_loop ydl L S (g # pre) st = (Next, st2)
          \<and> eligible L S f \<and> attempt ydl S f st2 = (Done p, st')"
        by simp
      then show ?thesis by blast
    next
      case (Done q)
      with Pair Cons.prems have e: "q = p" "st1 = st'"
        by simp_all
      from Pair Done e have "loop_body ydl L S g st = (Done p, st')"
        by simp
      from loop_body_done [OF this]
      have "g # cs = [] @ g # cs \<and> select_loop ydl L S [] st = (Next, st)
          \<and> eligible L S g \<and> attempt ydl S g st = (Done p, st')"
        by simp
      then show ?thesis by blast
    next
      case (Raise e)
      with Pair Cons.prems show ?thesis by simp
    qed
  qed
qed

lemma select_loop_first_fit:
  assumes "select_loop ydl L S pre st = (Next, st1)" and "eligible L S f"
    and "attempt ydl S f st1 = (Done p, st')"
  shows "select_loop ydl L S (pre @ f # post) st = (Done p, st')"
  using assms by (simp add: select_loop_append loop_body_eligible)

lemma sorted_wrt_rev_sort_key:
  "sorted_wrt (\<lambda>a b. k b \<le> k a) (rev (sort_key k xs))"
proof -
  have "sorted (map k (sort_key k xs))"
    by simp
  then have "sorted_wrt (\<lambda>a b. k a \<le> k b) (sort_key k xs)"
    by (simp add: sorted_map)
  then show ?thesis
    by (simp add: sorted_wrt_rev)
qed

lemma candidates_sorted: "sorted_wrt (\<lambda>a b. rank b \<le> rank a) (candidates fs)"
  unfolding candidates_def by (rule sorted_wrt_rev_sort_key)

lemma candidates_mset: "mset (candidates fs) = mset (filter has_video fs)"
  by (simp add: candidates_def)

lemma loop_body_attempted:
  "set (attempted (snd (loop_body ydl L S g st)))
     \<subseteq> set (attempted st) \<union> (if eligible L S g then {g} else {})"
proof (cases "eligible L S g")
  case True
  then show ?thesis
    using attempt_attempted [of ydl S g st] by (simp add: loop_body_eligible)
next
  case False
  from loop_body_ineligible [OF False, of ydl st] False show ?thesis by auto
qed

lemma select_loop_attempted_mem:
  "f \<in> set (attempted (snd (select_loop ydl L S cs st))) \<Longrightarrow>
   f \<in> set (attempted st) \<or> (f \<in> set cs \<and> eligible L S f)"
proof (induction cs arbitrary: st)
  case Nil
  then show ?case by simp
next
  case (Cons g cs)
  obtain r st1 where b: "loop_body ydl L S g st = (r, st1)"
    by (cases "loop_body ydl L S g st")
  have one: "f \<in> set (attempted st1) \<Longrightarrow> f \<in> set (attempted st) \<or> (f = g \<and> eligible L S g)"
    using loop_body_attempted [of ydl L S g st] b by (auto split: if_splits)
  show ?case
  proof (cases r)
    case Next
    with b Cons.prems have "f \<in> set (attempted (snd (select_loop ydl L S cs st1)))"
      by simp
    from Cons.IH [OF this] one show ?thesis by auto
  next
    case (Done q)
    with b Cons.prems have "f \<in> set (attempted st1)"
      by simp
    with one show ?thesis by auto
  next
    case (Raise e)
    with b Cons.prems have "f \<in> set (attempted st1)"
      by simp
    with one show ?thesis by auto
  qed
qed

lemma download_attempted_mem:
  assumes "f \<in> set (attempted (snd (download_with_ytdlp y L S w)))"
  shows "\<exists>i w1. probe y w = (Inr i, w1) \<and> f \<in> set (candidates (formats_of i)) \<and> eligible L S f"
proof (cases "installed y")
  case False
  with assms show ?thesis
    by (simp add: download_with_ytdlp_def init_state_def)
next
  case True
  obtain r w1 where pr: "probe y w = (r, w1)"
    by (cases "probe y w")
  show ?thesis
  proof (cases r)
    case (Inl e)
    with assms True pr show ?thesis
      by (simp add: download_with_ytdlp_def init_state_def)
  next
    case (Inr i)
    let ?run = "select_loop (download y) L S (candidates (formats_of i)) (init_state w1)"
    have "snd (download_with_ytdlp y L S w) = snd ?run"
      using True pr Inr
      by (simp add: download_with_ytdlp_def split: prod.splits option.splits step.splits)
    with assms have "f \<in> set (attempted (snd ?run))"
      by simp
    from select_loop_attempted_mem [OF this]
    have "f \<in> set (candidates (formats_of i)) \<and> eligible L S f"
      by (simp add: init_state_def)
    with pr Inr show ?thesis by simp
  qed
qed

lemma eligible_height: "0 < L \<Longrightarrow> eligible L S f \<Longrightarrow> h_of f \<le> L"
  by (auto simp: eligible_def height_skip_def)

text \<open>
  Claim C3. With a height limit \<open>L > 0\<close>, every rendition whose retrieval is attempted
  has a declared height of at most \<open>L\<close>. In particular, with the limit 720 and the
  renditions of heights 360, 720 and 1080, the 1080 rendition is never attempted,
  whatever the engine does.
\<close>

theorem never_attempts_above_height_limit:
  "(0 < L \<and> f \<in> set (attempted (snd (download_with_ytdlp y L S w)))
      \<longrightarrow> h_of f \<le> L \<and> (case height f of None \<Rightarrow> True | Some h \<Rightarrow> h \<le> L))
   \<and> r1080 \<notin> set (attempted (snd (download_with_ytdlp
                      \<lparr>installed = True, probe = lists [r360, r720, r1080], download = ydl\<rparr>
                      720 S w)))"
proof -
  have gen: "h_of f \<le> L \<and> (case height f of None \<Rightarrow> True | Some h \<Rightarrow> h \<le> L)"
    if "0 < L" and "f \<in> set (attempted (snd (download_with_ytdlp y L S w)))" for f y L S w
  proof -
    from download_attempted_mem [OF that(2)] have "eligible L S f"
      by blast
    with that(1) have "h_of f \<le> L"
      by (rule eligible_height)
    then show ?thesis
      by (simp add: h_of_def split: option.splits)
  qed
  have "\<not> h_of r1080 \<le> 720"
    by (simp add: h_of_def r1080_def)
  with gen [of 720 r1080] have "r1080 \<notin> set (attempted (snd (download_with_ytdlp
                      \<lparr>installed = True, probe = lists [r360, r720, r1080], download = ydl\<rparr>
                      720 S w)))"
    by fastforce
  with gen show ?thesis by blast
qed

lemmas sample_defs = r360_def r720_def r1080_def r_audio_def r_big_def

lemma cands0: "candidates [r360, r_audio, r720, r1080] = [r1080, r720, r360]"
  by (simp add: candidates_def has_video_def rank_def h_of_def tbr_of_def sample_defs)

lemma sample_heights: "h_of r360 = 360" "h_of r720 = 720" "h_of r1080 = 1080"
  by (simp_all add: h_of_def sample_defs)

lemma sample_sizes:
  "filesize_bytes r360 = None" "filesize_bytes r720 = None" "filesize_bytes r1080 = None"
  by (simp_all add: filesize_bytes_def int_guarded_def sample_defs)

lemma sample_eligible:
  "\<not> eligible 720 S r1080" "eligible 720 S r720" "eligible 720 S r360"
  by (simp_all add: eligible_no_estimate height_skip_def sample_heights sample_sizes)

lemma sample_eligible0:
  "eligible 0 S r1080" "eligible 0 S r720" "eligible 0 S r360"
  by (simp_all add: eligible_no_estimate height_skip_def sample_sizes)

lemma skip_r1080: "loop_body ydl 720 S r1080 st = (Next, st)"
  by (simp add: loop_body_height_skip height_skip_def sample_heights)

lemma div_mb_2mb: "div_mb 2097152 = Some 2"
proof -
  have "div_mb 2097152 = Some (of_int 2097152 / mb)"
    by (rule div_mb_small) simp
  then show ?thesis by (simp add: mb_def)
qed

lemma attempt_writes_small:
  "attempt (writes file_2mb) 3 f \<lparr>disk = empty_disk, last_err = None, attempted = []\<rparr>
     = (Done ''v.mp4'',
        \<lparr>disk = \<lparr>files = [''v.mp4'' \<mapsto> file_2mb], remote = 0\<rparr>, last_err = None,
         attempted = [f]\<rparr>)"
  by (simp add: attempt_def writes_def path_exists_def stat_size_def div_mb_2mb empty_disk_def
        file_2mb_def)

lemma run0:
  "download_with_ytdlp (shop [r360, r_audio, r720, r1080] file_2mb) 720 3 empty_disk
    = (Inr (''v.mp4'', Title ''clip''), st_done file_2mb None [r720])"
  by (simp add: download_with_ytdlp_def shop_def st_done_def formats_of_def lists_def cands0
        init_state_def title_of_def skip_r1080 loop_body_eligible sample_eligible
        attempt_writes_small)

theorem never_attempts_above_height_limit_witness:
  "(0::int) < 720
   \<and> r720 \<in> set (attempted (snd (download_with_ytdlp (shop [r360, r_audio, r720, r1080] file_2mb)
                                  720 3 empty_disk)))
   \<and> h_of r720 \<le> 720
   \<and> (case height r720 of None \<Rightarrow> True | Some h \<Rightarrow> h \<le> 720)"
proof -
  have p: "(0::int) < 720"
    by simp
  have m: "r720 \<in> set (attempted (snd (download_with_ytdlp
                (shop [r360, r_audio, r720, r1080] file_2mb) 720 3 empty_disk)))"
    by (simp add: run0 st_done_def)
  from p m never_attempts_above_height_limit
            [of 720 r720 "shop [r360, r_audio, r720, r1080] file_2mb" 3 empty_disk]
  show ?thesis by blast
qed

lemma flaky_r1080:
  "flaky e (format_id r1080) w = (DownloadError ''403'', w)"
  by (simp add: flaky_def r1080_def)

lemma flaky_r720:
  "flaky e (format_id r720) w
     = (Located (Some ''v.mp4''), w\<lparr>files := (files w)(''v.mp4'' \<mapsto> e)\<rparr>)"
  by (simp add: flaky_def writes_def r720_def)

lemma attempt_flaky_r1080:
  "attempt (flaky e) S r1080 (init_state empty_disk)
     = (Next, st_clean (Some (EngineError ''403'')) [r1080])"
  by (simp add: attempt_def flaky_r1080 init_state_def st_clean_def)

lemma loop_flaky_r1080:
  "select_loop (flaky e) 0 S [r1080] (init_state empty_disk)
     = (Next, st_clean (Some (EngineError ''403'')) [r1080])"
  by (simp add: loop_body_eligible sample_eligible0 attempt_flaky_r1080)

lemma disk_after_write:
  "empty_disk\<lparr>files := (files empty_disk)(''v.mp4'' \<mapsto> e)\<rparr> = disk_with ''v.mp4'' e"
  by (simp add: empty_disk_def disk_with_def)

lemma stat_2mb: "stat_size (disk_with ''v.mp4'' file_2mb) ''v.mp4'' = Some 2097152"
  by (simp add: stat_size_def disk_with_def file_2mb_def)

lemma exists_2mb: "path_exists (disk_with ''v.mp4'' e) ''v.mp4''"
  by (simp add: path_exists_def disk_with_def)

lemma st_done_update:
  "(st_clean err fs)\<lparr>disk := disk_with ''v.mp4'' e, attempted := attempted (st_clean err fs) @ [f]\<rparr>
     = st_done e err (fs @ [f])"
  by (simp add: st_clean_def st_done_def disk_with_def)

text \<open>
  Claim C1. The candidate list is the list of renditions with a video track, sorted in
  descending order of (height, bitrate). The selector returns a path and a title exactly
  in the following situation: the candidates split into those before a rendition \<open>f\<close>,
  every one of which was skipped or failed, \<open>f\<close> itself and the rest; \<open>f\<close> passes both
  pre-checks; the engine, asked for \<open>f\<close>, reports a file under a non-empty path that
  exists on disk; and either no size limit is set, or the size of the file cannot be read,
  or its size in megabytes is at most the limit. The returned path is the reported one, the
  title is that of the query, the state is the one before the request with the engine's
  disk and \<open>f\<close> added to the requests, and the renditions requested are the eligible ones
  before \<open>f\<close>, in order, then \<open>f\<close>. The candidates after \<open>f\<close> are not evaluated: the
  result is the same with any others in their place.
\<close>

theorem select_first_fit:
  "sorted_wrt (\<lambda>a b. rank b \<le> rank a) (candidates fs)
   \<and> mset (candidates fs) = mset (filter has_video fs)
   \<and> (download_with_ytdlp y L S w = (Inr (p, t), st) \<longrightarrow>
        (\<exists>i w1 pre f post st1 w2.
            installed y \<and> probe y w = (Inr i, w1) \<and> t = title_of i
          \<and> candidates (formats_of i) = pre @ f # post
          \<and> select_loop (download y) L S pre (init_state w1) = (Next, st1)
          \<and> eligible L S f
          \<and> download y (format_id f) (disk st1) = (Located (Some p), w2)
          \<and> p \<noteq> [] \<and> path_exists w2 p
          \<and> (S = 0 \<or> (case stat_size w2 p of
                         None \<Rightarrow> True
                       | Some sz \<Rightarrow> (case div_mb (int sz) of
                                      None \<Rightarrow> True
                                    | Some q \<Rightarrow> q \<le> of_int S)))
          \<and> st = st1\<lparr>disk := w2, attempted := attempted st1 @ [f]\<rparr>
          \<and> attempted st = filter (eligible L S) pre @ [f]))
   \<and> (installed y \<and> probe y w = (Inr j, v1)
        \<and> candidates (formats_of j) = before @ g # after
        \<and> select_loop (download y) L S before (init_state v1) = (Next, st2)
        \<and> eligible L S g
        \<and> download y (format_id g) (disk st2) = (Located (Some r), v2)
        \<and> r \<noteq> [] \<and> path_exists v2 r
        \<and> (S = 0 \<or> (case stat_size v2 r of
                       None \<Rightarrow> True
                     | Some sz \<Rightarrow> (case div_mb (int sz) of
                                    None \<Rightarrow> True
                                  | Some q \<Rightarrow> q \<le> of_int S)))
      \<longrightarrow> download_with_ytdlp y L S w
            = (Inr (r, title_of j), st2\<lparr>disk := v2, attempted := attempted st2 @ [g]\<rparr>)
          \<and> select_loop (download y) L S (before @ g # other) (init_state v1)
            = (Done r, st2\<lparr>disk := v2, attempted := attempted st2 @ [g]\<rparr>))"
proof -
  have fwd: "\<exists>i w1 pre f post st1 w2.
            installed y \<and> probe y w = (Inr i, w1) \<and> t = title_of i
          \<and> candidates (formats_of i) = pre @ f # post
          \<and> select_loop (download y) L S pre (init_state w1) = (Next, st1)
          \<and> eligible L S f
          \<and> download y (format_id f) (disk st1) = (Located (Some p), w2)
          \<and> p \<noteq> [] \<and> path_exists w2 p
          \<and> (S = 0 \<or> (case stat_size w2 p of
                         None \<Rightarrow> True
                       | Some sz \<Rightarrow> (case div_mb (int sz) of
                                      None \<Rightarrow> True
                                    | Some q \<Rightarrow> q \<le> of_int S)))
          \<and> st = st1\<lparr>disk := w2, attempted := attempted st1 @ [f]\<rparr>
          \<and> attempted st = filter (eligible L S) pre @ [f]"
    if ok: "download_with_ytdlp y L S w = (Inr (p, t), st)"
  proof -
    have inst: "installed y"
      using ok by (cases "installed y") (simp_all add: download_with_ytdlp_def)
    obtain r w1 where pr: "probe y w = (r, w1)"
      by (cases "probe y w")
    obtain i where r: "r = Inr i"
      using ok inst pr by (cases r) (simp_all add: download_with_ytdlp_def)
    let ?cs = "candidates (formats_of i)"
    obtain res st' where run': "select_loop (download y) L S ?cs (init_state w1) = (res, st')"
      by (cases "select_loop (download y) L S ?cs (init_state w1)")
    have "res = Done p \<and> st' = st \<and> t = title_of i"
      using ok inst pr r run'
      by (cases res) (simp_all add: download_with_ytdlp_def split: option.splits)
    with run' have run: "select_loop (download y) L S ?cs (init_state w1) = (Done p, st)"
      and t: "t = title_of i"
      by simp_all
    from select_loop_success [OF run] obtain pre f post st1 where
      d: "?cs = pre @ f # post" "select_loop (download y) L S pre (init_state w1) = (Next, st1)"
         "eligible L S f" "attempt (download y) S f st1 = (Done p, st)"
      by blast
    from d(4) obtain w2 where
      a: "download y (format_id f) (disk st1) = (Located (Some p), w2)"
         "p \<noteq> []" "path_exists w2 p"
         "S = 0 \<or> (case stat_size w2 p of
                         None \<Rightarrow> True
                       | Some sz \<Rightarrow> (case div_mb (int sz) of
                                      None \<Rightarrow> True
                                    | Some q \<Rightarrow> q \<le> of_int S))"
         "st = st1\<lparr>disk := w2, attempted := attempted st1 @ [f]\<rparr>"
      unfolding attempt_done_iff by blast
    have "attempted st1 = filter (eligible L S) pre"
      using select_loop_exhausted [OF d(2)] by (simp add: init_state_def)
    with a(5) have "attempted st = filter (eligible L S) pre @ [f]"
      by simp
    with inst pr r t d(1) d(2) d(3) a show ?thesis by blast
  qed
  have bwd: "download_with_ytdlp y L S w
            = (Inr (r, title_of j), st2\<lparr>disk := v2, attempted := attempted st2 @ [g]\<rparr>)
          \<and> select_loop (download y) L S (before @ g # other) (init_state v1)
            = (Done r, st2\<lparr>disk := v2, attempted := attempted st2 @ [g]\<rparr>)"
    if h: "installed y" "probe y w = (Inr j, v1)"
        "candidates (formats_of j) = before @ g # after"
        "select_loop (download y) L S before (init_state v1) = (Next, st2)"
        "eligible L S g"
        "download y (format_id g) (disk st2) = (Located (Some r), v2)"
        "r \<noteq> []" "path_exists v2 r"
        "S = 0 \<or> (case stat_size v2 r of
                       None \<Rightarrow> True
                     | Some sz \<Rightarrow> (case div_mb (int sz) of
                                    None \<Rightarrow> True
                                  | Some q \<Rightarrow> q \<le> of_int S))"
  proof -
    let ?st = "st2\<lparr>disk := v2, attempted := attempted st2 @ [g]\<rparr>"
    have att: "attempt (download y) S g st2 = (Done r, ?st)"
      unfolding attempt_done_iff using h(6) h(7) h(8) h(9) by blast
    have any: "select_loop (download y) L S (before @ g # rest) (init_state v1) = (Done r, ?st)"
      for rest
      using h(4) h(5) att by (rule select_loop_first_fit)
    from any [of after] h(1) h(2) h(3)
    have "download_with_ytdlp y L S w = (Inr (r, title_of j), ?st)"
      by (simp add: download_with_ytdlp_def)
    with any [of other] show ?thesis by simp
  qed
  from candidates_sorted [of fs] candidates_mset [of fs] fwd bwd show ?thesis
    by blast
qed

theorem select_first_fit_witness:
  "download_with_ytdlp (shop_flaky [r360, r_audio, r720, r1080] file_2mb) 0 3 empty_disk
      = (Inr (''v.mp4'', Title ''clip''),
         st_done file_2mb (Some (EngineError ''403'')) [r1080, r720])
   \<and> (\<exists>i w1 pre f post st1 w2.
          probe (shop_flaky [r360, r_audio, r720, r1080] file_2mb) empty_disk = (Inr i, w1)
        \<and> Title ''clip'' = title_of i
        \<and> candidates (formats_of i) = pre @ f # post
        \<and> select_loop (flaky file_2mb) 0 3 pre (init_state w1) = (Next, st1)
        \<and> eligible 0 3 f
        \<and> flaky file_2mb (format_id f) (disk st1) = (Located (Some ''v.mp4''), w2)
        \<and> path_exists w2 ''v.mp4''
        \<and> [r1080, r720] = filter (eligible 0 3) pre @ [f])
   \<and> installed (shop_flaky [r360, r_audio, r720, r1080] file_2mb)
   \<and> probe (shop_flaky [r360, r_audio, r720, r1080] file_2mb) empty_disk
        = (Inr (clip [r360, r_audio, r720, r1080]), empty_disk)
   \<and> candidates (formats_of (clip [r360, r_audio, r720, r1080])) = [r1080] @ r720 # [r360]
   \<and> select_loop (flaky file_2mb) 0 3 [r1080] (init_state empty_disk)
        = (Next, st_clean (Some (EngineError ''403'')) [r1080])
   \<and> eligible 0 3 r720
   \<and> flaky file_2mb (format_id r720) (disk (st_clean (Some (EngineError ''403'')) [r1080]))
        = (Located (Some ''v.mp4''), disk_with ''v.mp4'' file_2mb)
   \<and> path_exists (disk_with ''v.mp4'' file_2mb) ''v.mp4''
   \<and> stat_size (disk_with ''v.mp4'' file_2mb) ''v.mp4'' = Some 2097152
   \<and> div_mb (int 2097152) = Some 2 \<and> (2 :: rat) \<le> of_int 3
   \<and> select_loop (flaky file_2mb) 0 3 ([r1080] @ r720 # [r_big]) (init_state empty_disk)
        = (Done ''v.mp4'', st_done file_2mb (Some (EngineError ''403'')) [r1080, r720])"
proof -
  let ?y = "shop_flaky [r360, r_audio, r720, r1080] file_2mb"
  let ?st1 = "st_clean (Some (EngineError ''403'')) [r1080]"
  let ?st = "st_done file_2mb (Some (EngineError ''403'')) [r1080, r720]"
  let ?w2 = "disk_with ''v.mp4'' file_2mb"
  have d: "download ?y = flaky file_2mb"
    by (simp add: shop_flaky_def)
  have h1: "installed ?y"
    by (simp add: shop_flaky_def)
  have h2: "probe ?y empty_disk = (Inr (clip [r360, r_audio, r720, r1080]), empty_disk)"
    by (simp add: shop_flaky_def lists_def clip_def)
  have h3: "candidates (formats_of (clip [r360, r_audio, r720, r1080])) = [r1080] @ r720 # [r360]"
    by (simp add: formats_of_def clip_def cands0)
  have h4: "select_loop (flaky file_2mb) 0 3 [r1080] (init_state empty_disk) = (Next, ?st1)"
    by (rule loop_flaky_r1080)
  have h5: "eligible 0 3 r720"
    by (rule sample_eligible0)
  have h6: "flaky file_2mb (format_id r720) (disk ?st1) = (Located (Some ''v.mp4''), ?w2)"
    by (simp add: flaky_r720 st_clean_def disk_after_write)
  have h7: "''v.mp4'' \<noteq> []"
    by simp
  have h8: "path_exists ?w2 ''v.mp4''"
    by (rule exists_2mb)
  have h9: "stat_size ?w2 ''v.mp4'' = Some 2097152"
    by (rule stat_2mb)
  have h10: "div_mb (int 2097152) = Some 2"
    using div_mb_2mb by simp
  have h11: "(2 :: rat) \<le> of_int 3"
    by simp
  have h12: "(3 :: int) = 0 \<or> (case stat_size ?w2 ''v.mp4'' of
                       None \<Rightarrow> True
                     | Some sz \<Rightarrow> (case div_mb (int sz) of
                                    None \<Rightarrow> True
                                  | Some q \<Rightarrow> q \<le> of_int (3 :: int)))"
    by (simp add: h9 div_mb_2mb)
  have u: "?st1\<lparr>disk := ?w2, attempted := attempted ?st1 @ [r720]\<rparr> = ?st"
    using st_done_update [where err = "Some (EngineError ''403'')" and fs = "[r1080]"
                             and e = file_2mb and f = r720] by simp
  note inst = select_first_fit [of "[r360, r_audio, r720, r1080]" ?y 0 3 empty_disk
      "''v.mp4''" "Title ''clip''" ?st
      "clip [r360, r_audio, r720, r1080]" empty_disk "[r1080]" r720 "[r360]"
      ?st1 "''v.mp4''" ?w2 "[r_big]", unfolded d u]
  have c1: "download_with_ytdlp ?y 0 3 empty_disk = (Inr (''v.mp4'', Title ''clip''), ?st)"
    and c3: "select_loop (flaky file_2mb) 0 3 ([r1080] @ r720 # [r_big]) (init_state empty_disk)
               = (Done ''v.mp4'', ?st)"
    using inst h1 h2 h3 h4 h5 h6 h7 h8 h12 by (simp_all add: title_of_def clip_def)
  have c2: "\<exists>i w1 pre f post st1 w2.
          probe ?y empty_disk = (Inr i, w1)
        \<and> Title ''clip'' = title_of i
        \<and> candidates (formats_of i) = pre @ f # post
        \<and> select_loop (flaky file_2mb) 0 3 pre (init_state w1) = (Next, st1)
        \<and> eligible 0 3 f
        \<and> flaky file_2mb (format_id f) (disk st1) = (Located (Some ''v.mp4''), w2)
        \<and> path_exists w2 ''v.mp4''
        \<and> attempted ?st = filter (eligible 0 3) pre @ [f]"
    using inst c1 by blast
  have a: "attempted ?st = [r1080, r720]"
    by (simp add: st_done_def)
  from c1 c2 [unfolded a] c3 h1 h2 h3 h4 h5 h6 h8 h9 h10 h11 show ?thesis
    by blast
qed

lemma select_loop_none_split:
  "select_loop ydl L S (pre @ rest) st = (Next, st') \<Longrightarrow>
   \<exists>st1. select_loop ydl L S pre st = (Next, st1) \<and> select_loop ydl L S rest st1 = (Next, st')"
proof (induction pre arbitrary: st)
  case Nil
  then show ?case by simp
next
  case (Cons f pre)
  from Cons.prems have "select_loop ydl L S (f # (pre @ rest)) st = (Next, st')"
    by simp
  from select_loop_cons_next [OF this] obtain st1 where
    b: "loop_body ydl L S f st = (Next, st1)"
    and rest: "select_loop ydl L S (pre @ rest) st1 = (Next, st')"
    by blast
  from Cons.IH [OF rest] b show ?case by simp
qed

lemma select_loop_none_eligible:
  "\<not> list_ex (eligible L S) cs \<Longrightarrow> select_loop ydl L S cs st = (Next, st') \<Longrightarrow> st' = st"
proof (induction cs arbitrary: st)
  case Nil
  then show ?case by simp
next
  case (Cons f cs)
  from select_loop_cons_next [OF Cons.prems(2)] obtain st1 where
    b: "loop_body ydl L S f st = (Next, st1)" and rest: "select_loop ydl L S cs st1 = (Next, st')"
    by blast
  from Cons.prems(1) have ne: "\<not> eligible L S f" and nes: "\<not> list_ex (eligible L S) cs"
    by simp_all
  from loop_body_next_cases [OF b] ne have "st1 = st"
    by blast
  with Cons.IH [OF nes rest] show ?case by simp
qed

lemma select_loop_last_attempt:
  assumes "select_loop ydl L S (pre @ f # post) st0 = (Next, st)"
    and "eligible L S f" and "\<not> list_ex (eligible L S) post"
  shows "\<exists>st1. select_loop ydl L S pre st0 = (Next, st1) \<and> attempt ydl S f st1 = (Next, st)"
proof -
  from select_loop_none_split [OF assms(1)] obtain st1 where
    a: "select_loop ydl L S pre st0 = (Next, st1)"
    and b: "select_loop ydl L S (f # post) st1 = (Next, st)"
    by blast
  from select_loop_cons_next [OF b] obtain st2 where
    c: "loop_body ydl L S f st1 = (Next, st2)" and d: "select_loop ydl L S post st2 = (Next, st)"
    by blast
  from c assms(2) have c': "attempt ydl S f st1 = (Next, st2)"
    by (simp add: loop_body_eligible)
  from select_loop_none_eligible [OF assms(3) d] have "st = st2" .
  with a c' show ?thesis by simp
qed

lemma select_loop_last_err:
  "select_loop ydl L S cs st = (Next, st') \<Longrightarrow>
   (last_err st' = None) = (last_err st = None \<and> filter (eligible L S) cs = [])"
proof (induction cs arbitrary: st)
  case Nil
  then show ?case by simp
next
  case (Cons f cs)
  from select_loop_cons_next [OF Cons.prems] obtain st1 where
    b: "loop_body ydl L S f st = (Next, st1)" and rest: "select_loop ydl L S cs st1 = (Next, st')"
    by blast
  from loop_body_next_cases [OF b] show ?case
  proof
    assume e: "eligible L S f \<and> attempt ydl S f st = (Next, st1)"
    then have "last_err st1 \<noteq> None"
      using attempt_failure_recorded [of ydl S f st st1] by simp
    with Cons.IH [OF rest] e show ?thesis by simp
  next
    assume "\<not> eligible L S f \<and> st1 = st"
    with Cons.IH [OF rest] show ?thesis by simp
  qed
qed

lemma attempt_tidy:
  assumes "leaves_only_located ydl" and "attempt ydl S f st = (Next, st')"
  shows "dom (files (disk st')) \<subseteq> dom (files (disk st))"
proof -
  obtain outcome w1 where o: "ydl (format_id f) (disk st) = (outcome, w1)"
    by (cases "ydl (format_id f) (disk st)")
  from assms(1) have t: "case ydl (format_id f) (disk st) of
          (Located (Some p), w') \<Rightarrow>
             p \<noteq> [] \<and> (\<exists>e. files w' = (files (disk st))(p \<mapsto> e) \<and> \<not> unlink_fails e)
        | (_, w') \<Rightarrow> files w' = files (disk st)"
    unfolding leaves_only_located_def by (elim allE)
  show ?thesis
  proof (cases "\<exists>p. outcome = Located (Some p)")
    case False
    then have n: "\<forall>p. outcome \<noteq> Located (Some p)"
      by blast
    from attempt_not_located [of ydl f st outcome w1 S, OF o n] assms(2)
    have d: "disk st' = w1"
      by auto
    from t o n have "files w1 = files (disk st)"
      by (cases outcome) (auto split: option.splits)
    with d show ?thesis by simp
  next
    case True
    then obtain p where p: "outcome = Located (Some p)"
      by blast
    with o t obtain e where
      e: "p \<noteq> []" "files w1 = (files (disk st))(p \<mapsto> e)" "\<not> unlink_fails e"
      by auto
    then have u: "unlink w1 p = Some (w1\<lparr>files := (files w1)(p := None)\<rparr>)"
      by (simp add: unlink_def)
    have ex: "path_exists w1 p"
      using e by (simp add: path_exists_def)
    note eq = attempt_located [of ydl f st p w1 S, OF o [unfolded p]]
    from eq assms(2) e(1) ex u
    have "disk st' = w1\<lparr>files := (files w1)(p := None)\<rparr>"
      by (auto split: if_splits)
    with e(2) show ?thesis by auto
  qed
qed

lemma select_loop_tidy:
  "leaves_only_located ydl \<Longrightarrow> select_loop ydl L S cs st = (Next, st') \<Longrightarrow>
   dom (files (disk st')) \<subseteq> dom (files (disk st))"
proof (induction cs arbitrary: st)
  case Nil
  then show ?case by simp
next
  case (Cons f cs)
  from select_loop_cons_next [OF Cons.prems(2)] obtain st1 where
    b: "loop_body ydl L S f st = (Next, st1)" and rest: "select_loop ydl L S cs st1 = (Next, st')"
    by blast
  from loop_body_next_cases [OF b] show ?case
  proof
    assume e: "eligible L S f \<and> attempt ydl S f st = (Next, st1)"
    then have "attempt ydl S f st = (Next, st1)"
      by simp
    from attempt_tidy [OF Cons.prems(1) this]
    have "dom (files (disk st1)) \<subseteq> dom (files (disk st))" .
    with Cons.IH [OF Cons.prems(1) rest] show ?thesis by blast
  next
    assume "\<not> eligible L S f \<and> st1 = st"
    with Cons.IH [OF Cons.prems(1) rest] show ?thesis by simp
  qed
qed

text \<open>
  Claim C4 (as amended). When the loop runs through all candidates without a success,
  the selector fails with the run-time error whose detail is the value of \<^verbatim>\<open>last_err\<close>,
  or the generic detail when \<^verbatim>\<open>last_err\<close> was never set, which is the case exactly when
  no candidate was attempted. The requested renditions are the eligible candidates.
  The detail is that of the last attempt alone, whatever earlier attempts recorded: when
  \<open>f\<close> is the last eligible candidate, the detail is the text of the engine's exception
  if the request for \<open>f\<close> raised, the not-found message if the engine reported no file,
  an empty path or a path that does not exist, and the size-limit message otherwise, which
  happens only with a size limit set and a file measured above it. Provided the engine
  leaves nothing on disk but deletable files that it reports, no file that was absent
  before remains afterwards.
\<close>

theorem exhaustion_detail:
  "installed y \<and> probe y w = (Inr i, w1)
      \<and> select_loop (download y) L S (candidates (formats_of i)) (init_state w1) = (Next, st)
    \<longrightarrow> download_with_ytdlp y L S w
          = (Inl (RuntimeError (case last_err st of None \<Rightarrow> NoCandidate | Some m \<Rightarrow> m)), st)
        \<and> attempted st = filter (eligible L S) (candidates (formats_of i))
        \<and> (last_err st = None) = (attempted st = [])
        \<and> (leaves_only_located (download y)
              \<longrightarrow> dom (files (disk st)) \<subseteq> dom (files w1))
        \<and> (candidates (formats_of i) = pre @ f # post
              \<and> eligible L S f \<and> \<not> list_ex (eligible L S) post
            \<longrightarrow> (\<exists>st1 outcome w2.
                    select_loop (download y) L S pre (init_state w1) = (Next, st1)
                  \<and> download y (format_id f) (disk st1) = (outcome, w2)
                  \<and> download_with_ytdlp y L S w
                      = (Inl (RuntimeError
                               (case outcome of
                                  DownloadError e \<Rightarrow> EngineError e
                                | OtherError e \<Rightarrow> EngineError e
                                | Located None \<Rightarrow> FileNotFound
                                | Located (Some p) \<Rightarrow>
                                    if p = [] \<or> \<not> path_exists w2 p
                                    then FileNotFound else FileOverLimit)), st)
                  \<and> (\<forall>p. outcome = Located (Some p) \<and> p \<noteq> [] \<and> path_exists w2 p \<longrightarrow>
                         S \<noteq> 0 \<and> (\<exists>sz q. stat_size w2 p = Some sz
                                          \<and> div_mb (int sz) = Some q \<and> of_int S < q))))"
proof (intro impI)
  assume hyp: "installed y \<and> probe y w = (Inr i, w1)
      \<and> select_loop (download y) L S (candidates (formats_of i)) (init_state w1) = (Next, st)"
  then have h: "installed y" "probe y w = (Inr i, w1)"
      "select_loop (download y) L S (candidates (formats_of i)) (init_state w1) = (Next, st)"
    by simp_all
  have r: "download_with_ytdlp y L S w
          = (Inl (RuntimeError (case last_err st of None \<Rightarrow> NoCandidate | Some m \<Rightarrow> m)), st)"
    using h by (simp add: download_with_ytdlp_def split: option.splits)
  have t: "attempted st = filter (eligible L S) (candidates (formats_of i))"
    using select_loop_exhausted [OF h(3)] by (simp add: init_state_def)
  have e: "(last_err st = None) = (attempted st = [])"
    using select_loop_last_err [OF h(3)] t by (simp add: init_state_def)
  have d: "dom (files (disk st)) \<subseteq> dom (files w1)" if "leaves_only_located (download y)"
    using select_loop_tidy [OF that h(3)] by (simp add: init_state_def)
  have l: "\<exists>st1 outcome w2.
                    select_loop (download y) L S pre (init_state w1) = (Next, st1)
                  \<and> download y (format_id f) (disk st1) = (outcome, w2)
                  \<and> download_with_ytdlp y L S w
                      = (Inl (RuntimeError
                               (case outcome of
                                  DownloadError e \<Rightarrow> EngineError e
                                | OtherError e \<Rightarrow> EngineError e
                                | Located None \<Rightarrow> FileNotFound
                                | Located (Some p) \<Rightarrow>
                                    if p = [] \<or> \<not> path_exists w2 p
                                    then FileNotFound else FileOverLimit)), st)
                  \<and> (\<forall>p. outcome = Located (Some p) \<and> p \<noteq> [] \<and> path_exists w2 p \<longrightarrow>
                         S \<noteq> 0 \<and> (\<exists>sz q. stat_size w2 p = Some sz
                                          \<and> div_mb (int sz) = Some q \<and> of_int S < q))"
    if k: "candidates (formats_of i) = pre @ f # post" "eligible L S f"
      "\<not> list_ex (eligible L S) post"
  proof -
    from h(3) k(1) have "select_loop (download y) L S (pre @ f # post) (init_state w1) = (Next, st)"
      by simp
    from select_loop_last_attempt [OF this k(2) k(3)] obtain st1 where
      a: "select_loop (download y) L S pre (init_state w1) = (Next, st1)"
      and b: "attempt (download y) S f st1 = (Next, st)"
      by blast
    from attempt_next_detail [OF b] obtain outcome w2 where
      o: "download y (format_id f) (disk st1) = (outcome, w2)"
      and le: "last_err st =
             Some (case outcome of
                     DownloadError e \<Rightarrow> EngineError e
                   | OtherError e \<Rightarrow> EngineError e
                   | Located None \<Rightarrow> FileNotFound
                   | Located (Some p) \<Rightarrow>
                       if p = [] \<or> \<not> path_exists w2 p then FileNotFound else FileOverLimit)"
      and sz: "\<forall>p. outcome = Located (Some p) \<and> p \<noteq> [] \<and> path_exists w2 p \<longrightarrow>
                S \<noteq> 0 \<and> (\<exists>sz q. stat_size w2 p = Some sz \<and> div_mb (int sz) = Some q
                                  \<and> of_int S < q)"
      by blast
    from r le have "download_with_ytdlp y L S w
                      = (Inl (RuntimeError
                               (case outcome of
                                  DownloadError e \<Rightarrow> EngineError e
                                | OtherError e \<Rightarrow> EngineError e
                                | Located None \<Rightarrow> FileNotFound
                                | Located (Some p) \<Rightarrow>
                                    if p = [] \<or> \<not> path_exists w2 p
                                    then FileNotFound else FileOverLimit)), st)"
      by simp
    with a o sz show ?thesis by blast
  qed
  from r t e d l show "download_with_ytdlp y L S w
          = (Inl (RuntimeError (case last_err st of None \<Rightarrow> NoCandidate | Some m \<Rightarrow> m)), st)
        \<and> attempted st = filter (eligible L S) (candidates (formats_of i))
        \<and> (last_err st = None) = (attempted st = [])
        \<and> (leaves_only_located (download y)
              \<longrightarrow> dom (files (disk st)) \<subseteq> dom (files w1))
        \<and> (candidates (formats_of i) = pre @ f # post
              \<and> eligible L S f \<and> \<not> list_ex (eligible L S) post
            \<longrightarrow> (\<exists>st1 outcome w2.
                    select_loop (download y) L S pre (init_state w1) = (Next, st1)
                  \<and> download y (format_id f) (disk st1) = (outcome, w2)
                  \<and> download_with_ytdlp y L S w
                      = (Inl (RuntimeError
                               (case outcome of
                                  DownloadError e \<Rightarrow> EngineError e
                                | OtherError e \<Rightarrow> EngineError e
                                | Located None \<Rightarrow> FileNotFound
                                | Located (Some p) \<Rightarrow>
                                    if p = [] \<or> \<not> path_exists w2 p
                                    then FileNotFound else FileOverLimit)), st)
                  \<and> (\<forall>p. outcome = Located (Some p) \<and> p \<noteq> [] \<and> path_exists w2 p \<longrightarrow>
                         S \<noteq> 0 \<and> (\<exists>sz q. stat_size w2 p = Some sz
                                          \<and> div_mb (int sz) = Some q \<and> of_int S < q))))"
    by blast
qed

lemma cands1: "candidates [r240, r720, r1080] = [r1080, r720, r240]"
  by (simp add: candidates_def has_video_def rank_def h_of_def tbr_of_def r240_def r720_def
        r1080_def)

lemma div_mb_50mb: "div_mb 52428800 = Some 50"
proof -
  have "div_mb 52428800 = Some (of_int 52428800 / mb)"
    by (rule div_mb_small) simp
  then show ?thesis by (simp add: mb_def)
qed

lemma r240_bytes: "filesize_bytes r240 = Some 52428800"
  by (simp add: filesize_bytes_def int_guarded_def py_int_of_rat_def r240_def)

lemma r240_skipped: "\<not> eligible L 1 r240"
  by (simp add: eligible_def size_precheck_def r240_bytes div_mb_50mb)

lemma r240_continue: "loop_body ydl 0 1 r240 st = (Next, st)"
  by (simp add: loop_body_def height_skip_def size_precheck_def r240_bytes div_mb_50mb)

lemma attempt_flaky_big:
  "attempt (flaky file_2mb) 1 r720 (st_clean err fs)
     = (Next, st_clean (Some FileOverLimit) (fs @ [r720]))"
  by (simp add: attempt_def flaky_r720 st_clean_def path_exists_def stat_size_def unlink_def
        div_mb_2mb empty_disk_def file_2mb_def)

lemma attempt_writes_locked:
  "attempt (writes file_2mb_locked) 1 f (init_state empty_disk)
     = (Next, st_done file_2mb_locked (Some FileOverLimit) [f])"
  by (simp add: attempt_def writes_def path_exists_def stat_size_def unlink_def div_mb_2mb
        empty_disk_def file_2mb_locked_def init_state_def st_done_def)

lemma flaky_tidy: "leaves_only_located (flaky file_2mb)"
proof -
  have "\<exists>e. (files w)(''v.mp4'' \<mapsto> file_2mb) = (files w)(''v.mp4'' \<mapsto> e) \<and> \<not> unlink_fails e"
    for w :: world
  proof (intro exI conjI)
    show "(files w)(''v.mp4'' \<mapsto> file_2mb) = (files w)(''v.mp4'' \<mapsto> file_2mb)"
      by (rule refl)
    show "\<not> unlink_fails file_2mb"
      by (simp add: file_2mb_def)
  qed
  then show ?thesis
    by (simp add: leaves_only_located_def flaky_def writes_def)
qed

lemma loop1:
  "select_loop (flaky file_2mb) 0 1 [r1080, r720, r240] (init_state empty_disk)
     = (Next, st_clean (Some FileOverLimit) [r1080, r720])"
  by (simp add: loop_body_eligible sample_eligible0 attempt_flaky_r1080 attempt_flaky_big
        r240_continue)

theorem exhaustion_detail_witness:
  "installed (shop_flaky [r240, r720, r1080] file_2mb)
   \<and> probe (shop_flaky [r240, r720, r1080] file_2mb) empty_disk
       = (Inr (clip [r240, r720, r1080]), empty_disk)
   \<and> select_loop (flaky file_2mb) 0 1 (candidates (formats_of (clip [r240, r720, r1080])))
        (init_state empty_disk)
       = (Next, st_clean (Some FileOverLimit) [r1080, r720])
   \<and> download_with_ytdlp (shop_flaky [r240, r720, r1080] file_2mb) 0 1 empty_disk
       = (Inl (RuntimeError FileOverLimit), st_clean (Some FileOverLimit) [r1080, r720])
   \<and> [r1080, r720] = filter (eligible 0 1) (candidates (formats_of (clip [r240, r720, r1080])))
   \<and> leaves_only_located (flaky file_2mb)
   \<and> dom (files (disk (st_clean (Some FileOverLimit) [r1080, r720]))) \<subseteq> dom (files empty_disk)
   \<and> candidates (formats_of (clip [r240, r720, r1080])) = [r1080] @ r720 # [r240]
   \<and> eligible 0 1 r720 \<and> \<not> list_ex (eligible 0 1) [r240]
   \<and> select_loop (flaky file_2mb) 0 1 [r1080] (init_state empty_disk)
       = (Next, st_clean (Some (EngineError ''403'')) [r1080])
   \<and> flaky file_2mb (format_id r720) (disk (st_clean (Some (EngineError ''403'')) [r1080]))
       = (Located (Some ''v.mp4''), disk_with ''v.mp4'' file_2mb)
   \<and> path_exists (disk_with ''v.mp4'' file_2mb) ''v.mp4''
   \<and> (\<exists>sz q. stat_size (disk_with ''v.mp4'' file_2mb) ''v.mp4'' = Some sz
            \<and> div_mb (int sz) = Some q \<and> of_int 1 < q)"
proof -
  let ?y = "shop_flaky [r240, r720, r1080] file_2mb"
  let ?st = "st_clean (Some FileOverLimit) [r1080, r720]"
  let ?st1 = "st_clean (Some (EngineError ''403'')) [r1080]"
  let ?w2 = "disk_with ''v.mp4'' file_2mb"
  have d: "download ?y = flaky file_2mb"
    by (simp add: shop_flaky_def)
  have h1: "installed ?y"
    by (simp add: shop_flaky_def)
  have h2: "probe ?y empty_disk = (Inr (clip [r240, r720, r1080]), empty_disk)"
    by (simp add: shop_flaky_def lists_def clip_def)
  have cs: "candidates (formats_of (clip [r240, r720, r1080])) = [r1080, r720, r240]"
    by (simp add: formats_of_def clip_def cands1)
  have h3: "select_loop (flaky file_2mb) 0 1 (candidates (formats_of (clip [r240, r720, r1080])))
              (init_state empty_disk) = (Next, ?st)"
    unfolding cs by (rule loop1)
  have h4: "leaves_only_located (flaky file_2mb)"
    by (rule flaky_tidy)
  have h5: "candidates (formats_of (clip [r240, r720, r1080])) = [r1080] @ r720 # [r240]"
    using cs by simp
  have h6: "eligible 0 1 r720"
    by (rule sample_eligible0)
  have h7: "\<not> list_ex (eligible 0 1) [r240]"
    by (simp add: r240_skipped)
  have h8: "select_loop (flaky file_2mb) 0 1 [r1080] (init_state empty_disk) = (Next, ?st1)"
    by (rule loop_flaky_r1080)
  have h9: "flaky file_2mb (format_id r720) (disk ?st1) = (Located (Some ''v.mp4''), ?w2)"
    by (simp add: flaky_r720 st_clean_def disk_after_write)
  have h10: "path_exists ?w2 ''v.mp4''"
    by (rule exists_2mb)
  note inst = exhaustion_detail [of ?y empty_disk "clip [r240, r720, r1080]" empty_disk 0 1 ?st
      "[r1080]" r720 "[r240]", unfolded d]
  from inst h1 h2 h3 have body:
    "download_with_ytdlp ?y 0 1 empty_disk
          = (Inl (RuntimeError (case last_err ?st of None \<Rightarrow> NoCandidate | Some m \<Rightarrow> m)), ?st)
        \<and> attempted ?st = filter (eligible 0 1) (candidates (formats_of (clip [r240, r720, r1080])))
        \<and> (leaves_only_located (flaky file_2mb)
              \<longrightarrow> dom (files (disk ?st)) \<subseteq> dom (files empty_disk))
        \<and> (candidates (formats_of (clip [r240, r720, r1080])) = [r1080] @ r720 # [r240]
              \<and> eligible 0 1 r720 \<and> \<not> list_ex (eligible 0 1) [r240]
            \<longrightarrow> (\<exists>st1 outcome w2.
                    select_loop (flaky file_2mb) 0 1 [r1080] (init_state empty_disk) = (Next, st1)
                  \<and> flaky file_2mb (format_id r720) (disk st1) = (outcome, w2)
                  \<and> (\<forall>p. outcome = Located (Some p) \<and> p \<noteq> [] \<and> path_exists w2 p \<longrightarrow>
                         (1::int) \<noteq> 0 \<and> (\<exists>sz q. stat_size w2 p = Some sz
                                          \<and> div_mb (int sz) = Some q \<and> of_int 1 < q))))"
    by blast
  have c1: "download_with_ytdlp ?y 0 1 empty_disk = (Inl (RuntimeError FileOverLimit), ?st)"
    using body by (simp add: st_clean_def)
  have c2: "[r1080, r720] = filter (eligible 0 1) (candidates (formats_of (clip [r240, r720, r1080])))"
    using body by (simp add: st_clean_def)
  have c3: "dom (files (disk ?st)) \<subseteq> dom (files empty_disk)"
    using body h4 by blast
  from body h5 h6 h7 obtain st1 outcome w2 where
    l: "select_loop (flaky file_2mb) 0 1 [r1080] (init_state empty_disk) = (Next, st1)"
       "flaky file_2mb (format_id r720) (disk st1) = (outcome, w2)"
       "\<forall>p. outcome = Located (Some p) \<and> p \<noteq> [] \<and> path_exists w2 p \<longrightarrow>
                         (1::int) \<noteq> 0 \<and> (\<exists>sz q. stat_size w2 p = Some sz
                                          \<and> div_mb (int sz) = Some q \<and> of_int 1 < q)"
    by blast
  from l(1) h8 have s1: "st1 = ?st1"
    by simp
  from l(2) h9 s1 have o: "outcome = Located (Some ''v.mp4'')" "w2 = ?w2"
    by simp_all
  from l(3) o h10 have c4: "\<exists>sz q. stat_size ?w2 ''v.mp4'' = Some sz
            \<and> div_mb (int sz) = Some q \<and> of_int 1 < q"
    by simp
  from h1 h2 h3 h4 h5 h6 h7 h8 h9 h10 c1 c2 c3 c4 show ?thesis
    by blast
qed

text \<open>
  The claim as worded fails: a single rendition whose downloaded file exceeds the limit
  and cannot be deleted (the deletion raises, which line 743 catches and logs) ends the
  selection with the size-limit detail while the file is still on disk.
\<close>

theorem exhaustion_leaves_file:
  "download_with_ytdlp (shop [r720] file_2mb_locked) 0 1 empty_disk
     = (Inl (RuntimeError FileOverLimit), st_done file_2mb_locked (Some FileOverLimit) [r720])
   \<and> path_exists (disk (st_done file_2mb_locked (Some FileOverLimit) [r720])) ''v.mp4''"
proof -
  have c: "candidates [r720] = [r720]"
    by (simp add: candidates_def has_video_def r720_def)
  show ?thesis
    by (simp add: download_with_ytdlp_def shop_def lists_def formats_of_def c loop_body_eligible
          sample_eligible0 attempt_writes_locked)
       (simp add: st_done_def path_exists_def)
qed














section \<open>Verification: link extractor\<close>

lemma set_add_unique: "set (add_unique urls us) = set urls \<union> set us"
  by (induction us arbitrary: urls) auto

lemma set_find_urls_str:
  "set (find_urls_str env t)
     = set (findall_bili env t) \<union> (\<Union>v \<in> set (query_values env t). set (findall_bili env v))"
  by (simp add: find_urls_str_def set_add_unique)

lemma find_urls_in_text_ok:
  "find_urls_in_text env v \<noteq> None \<longleftrightarrow> (case v of PStr t \<Rightarrow> True | w \<Rightarrow> \<not> truthy w)"
  by (cases v) (simp_all add: find_urls_in_text_def)

lemma scan_segment_raises: "scan_segment env seg urls = None \<longleftrightarrow> \<not> payload_ok seg"
proof -
  have "scan_segment env seg urls = None \<longleftrightarrow> find_urls_in_text env (payload seg) = None"
    by (auto simp: scan_segment_def payload_def Let_def split: option.splits pyval.splits)
  then show ?thesis
    using find_urls_in_text_ok [of env "payload seg"] by (auto simp: payload_ok_def)
qed

lemma payload_cases:
  "seg_type seg = ''text'' \<Longrightarrow>
     payload seg = dict_get_default (seg_data seg) ''text'' (PStr [])"
  "seg_type seg \<noteq> ''text'' \<Longrightarrow> seg_type seg = ''json'' \<or> seg_type seg = ''xml'' \<Longrightarrow>
     payload seg = py_or (py_or (dict_get (seg_data seg) ''data'')
                                (dict_get (seg_data seg) ''content'')) (PStr [])"
  "seg_type seg \<noteq> ''text'' \<Longrightarrow> seg_type seg \<noteq> ''json'' \<Longrightarrow> seg_type seg \<noteq> ''xml'' \<Longrightarrow>
   seg_type seg = ''share'' \<Longrightarrow>
     payload seg = py_or (dict_get (seg_data seg) ''url'') (PStr [])"
  "seg_type seg \<noteq> ''text'' \<Longrightarrow> seg_type seg \<noteq> ''json'' \<Longrightarrow> seg_type seg \<noteq> ''xml'' \<Longrightarrow>
   seg_type seg \<noteq> ''share'' \<Longrightarrow> payload seg = PStr (rendered seg)"
  by (simp_all add: payload_def)

lemma scan_segment_shape:
  assumes "scan_segment env seg urls = Some urls'"
  shows "\<exists>us. find_urls_in_text env (payload seg) = Some us \<and> set urls \<union> set us \<subseteq> set urls'"
proof -
  consider (plain) "seg_type seg = ''text''"
    | (json) "seg_type seg \<noteq> ''text''" "seg_type seg = ''json''"
    | (xml) "seg_type seg \<noteq> ''text''" "seg_type seg \<noteq> ''json''" "seg_type seg = ''xml''"
    | (share) "seg_type seg \<noteq> ''text''" "seg_type seg \<noteq> ''json''" "seg_type seg \<noteq> ''xml''"
        "seg_type seg = ''share''"
    | (other) "seg_type seg \<noteq> ''text''" "seg_type seg \<noteq> ''json''" "seg_type seg \<noteq> ''xml''"
        "seg_type seg \<noteq> ''share''"
    by blast
  then show ?thesis
  proof cases
    case plain
    with assms show ?thesis
      by (auto simp: scan_segment_def payload_cases(1) set_add_unique split: option.splits)
  next
    case json
    with assms show ?thesis
      by (auto simp: scan_segment_def payload_cases(2) Let_def set_add_unique
               split: option.splits pyval.splits)
  next
    case xml
    with assms show ?thesis
      by (auto simp: scan_segment_def payload_cases(2) Let_def set_add_unique
               split: option.splits)
  next
    case share
    with assms show ?thesis
      by (auto simp: scan_segment_def payload_cases(3) Let_def set_add_unique
               split: option.splits)
  next
    case other
    with assms show ?thesis
      by (auto simp: scan_segment_def payload_cases(4) set_add_unique split: option.splits)
  qed
qed

lemma scan_segment_json:
  assumes "scan_segment env seg urls = Some urls'" and "seg_type seg = ''json''"
    and "payload seg = PStr t" and "json_loads env t = Some obj"
  shows "urls' = add_unique (add_unique urls (find_urls_str env t))
                   (concat (map (find_urls_str env) (walk_strings obj)))"
proof -
  have ne: "seg_type seg \<noteq> ''text''"
    using assms(2) by simp
  from payload_cases(2) [OF ne] assms(2) assms(3)
  have raw: "py_or (py_or (dict_get (seg_data seg) ''data'')
                          (dict_get (seg_data seg) ''content'')) (PStr []) = PStr t"
    by simp
  from assms(1) assms(2) assms(4) show ?thesis
    by (simp add: scan_segment_def raw find_urls_in_text_def)
qed

lemma scan_segment_collects:
  assumes "scan_segment env seg urls = Some urls'"
  shows "set urls \<subseteq> set urls'"
    and "payload seg = PStr t \<Longrightarrow> set (find_urls_str env t) \<subseteq> set urls'"
    and "payload seg = PStr t \<Longrightarrow> seg_type seg = ''json'' \<Longrightarrow> json_loads env t = Some obj \<Longrightarrow>
         leaf \<in> set (walk_strings obj) \<Longrightarrow> set (find_urls_str env leaf) \<subseteq> set urls'"
proof -
  from scan_segment_shape [OF assms] obtain us where
    f: "find_urls_in_text env (payload seg) = Some us"
    and sub: "set urls \<union> set us \<subseteq> set urls'"
    by blast
  from sub show "set urls \<subseteq> set urls'"
    by simp
  show "set (find_urls_str env t) \<subseteq> set urls'" if "payload seg = PStr t"
  proof -
    from f that have "us = find_urls_str env t"
      by (simp add: find_urls_in_text_def)
    with sub show ?thesis by blast
  qed
  show "set (find_urls_str env leaf) \<subseteq> set urls'"
    if h: "payload seg = PStr t" "seg_type seg = ''json''" "json_loads env t = Some obj"
      "leaf \<in> set (walk_strings obj)"
  proof -
    from scan_segment_json [OF assms h(2) h(1) h(3)]
    have "set urls' = set urls \<union> set (find_urls_str env t)
            \<union> (\<Union>x \<in> set (walk_strings obj). set (find_urls_str env x))"
      by (simp add: set_add_unique)
    with h(4) show ?thesis by blast
  qed
qed

lemma scan_segments_complete:
  "list_all payload_ok segs \<Longrightarrow> \<exists>urls'. scan_segments env segs urls = (True, urls')"
proof (induction segs arbitrary: urls)
  case Nil
  show ?case by simp
next
  case (Cons seg segs)
  then have "scan_segment env seg urls \<noteq> None"
    by (simp add: scan_segment_raises)
  then obtain urls1 where "scan_segment env seg urls = Some urls1"
    by blast
  with Cons show ?case by simp
qed

lemma scan_segments_mono:
  "scan_segments env segs urls = (b, urls') \<Longrightarrow> set urls \<subseteq> set urls'"
proof (induction segs arbitrary: urls)
  case Nil
  then show ?case by simp
next
  case (Cons seg segs)
  show ?case
  proof (cases "scan_segment env seg urls")
    case None
    with Cons.prems show ?thesis by simp
  next
    case (Some urls1)
    with Cons.prems have "scan_segments env segs urls1 = (b, urls')"
      by simp
    from Cons.IH [OF this] scan_segment_collects(1) [OF Some] show ?thesis
      by blast
  qed
qed

lemma scan_segments_member:
  assumes "scan_segments env segs urls = (True, urls')" and "seg \<in> set segs"
    and "\<And>urls0 urls1. scan_segment env seg urls0 = Some urls1 \<Longrightarrow> A \<subseteq> set urls1"
  shows "A \<subseteq> set urls'"
  using assms(1) assms(2)
proof (induction segs arbitrary: urls)
  case Nil
  then show ?case by simp
next
  case (Cons sg segs)
  from Cons.prems(1) obtain urls1 where
    one: "scan_segment env sg urls = Some urls1"
    and rest: "scan_segments env segs urls1 = (True, urls')"
    by (auto split: option.splits)
  show ?case
  proof (cases "seg = sg")
    case True
    with assms(3) one have "A \<subseteq> set urls1"
      by blast
    with scan_segments_mono [OF rest] show ?thesis by blast
  next
    case False
    with Cons.prems(2) have "seg \<in> set segs"
      by simp
    from Cons.IH [OF rest this] show ?thesis .
  qed
qed

lemma scan_segments_stops:
  "list_all payload_ok pre \<Longrightarrow> \<not> payload_ok bad \<Longrightarrow>
   scan_segments env (pre @ bad # post) urls = (False, snd (scan_segments env pre urls))"
proof (induction pre arbitrary: urls)
  case Nil
  then have "scan_segment env bad urls = None"
    by (simp add: scan_segment_raises)
  then show ?case by simp
next
  case (Cons seg pre)
  then have "scan_segment env seg urls \<noteq> None"
    by (simp add: scan_segment_raises)
  then obtain urls1 where "scan_segment env seg urls = Some urls1"
    by blast
  with Cons show ?case by simp
qed

lemma extract_set:
  "scan_segments env (message ev) [] = (True, urls) \<Longrightarrow>
   set (extract_bili_urls_from_event env ev)
     = set urls
       \<union> (\<lambda>m. ''av'' @ m) ` set (findall_av env (case plaintext ev of None \<Rightarrow> [] | Some t \<Rightarrow> t))
       \<union> (\<lambda>m. av_prefix @ m @ ''/'')
           ` set (findall_av_url env (case plaintext ev of None \<Rightarrow> [] | Some t \<Rightarrow> t))"
  by (simp add: extract_bili_urls_from_event_def Let_def set_add_unique)

lemma extract_sample:
  "extract_bili_urls_from_event toy_env \<lparr>message = [broken_json_seg, text_seg], plaintext = None\<rparr>
     = [link]"
  by (simp add: extract_bili_urls_from_event_def scan_segment_def toy_env_def broken_json_seg_def
        text_seg_def dict_get_def dict_get_default_def py_or_def find_urls_in_text_def
        find_urls_str_def link_def)

text \<open>
  Claim C6 (as amended). When every segment hands a string (or a false value) to the
  pattern search, the scan runs over all segments whatever \<^verbatim>\<open>json.loads\<close> does, and the
  result holds every candidate there is to collect: the links that the pattern finds in
  the payload of any segment and in the decoded values of its forwarded-link parameters;
  for a JSON card whose payload decodes, the links that the pattern finds in every string
  leaf of the decoded value and in the forwarded-link parameters of that leaf; and the
  legacy tokens and token links of the plain text. So a message of one JSON-card segment
  whose text does not parse and one plain-text link yields the link. A segment whose
  payload is true and not a string raises outside every inner handler; the scan stops
  there, and the result is what the segments before it gave.
\<close>

theorem extractor_partial_failure:
  "(list_all payload_ok (message ev) \<and> seg \<in> set (message ev) \<and> payload seg = PStr t
    \<longrightarrow> set (findall_bili env t) \<subseteq> set (extract_bili_urls_from_event env ev)
        \<and> (\<forall>v \<in> set (query_values env t).
              set (findall_bili env v) \<subseteq> set (extract_bili_urls_from_event env ev))
        \<and> (seg_type seg = ''json'' \<and> json_loads env t = Some obj
            \<longrightarrow> (\<forall>leaf \<in> set (walk_strings obj).
                    set (findall_bili env leaf) \<subseteq> set (extract_bili_urls_from_event env ev)
                  \<and> (\<forall>v \<in> set (query_values env leaf).
                        set (findall_bili env v)
                          \<subseteq> set (extract_bili_urls_from_event env ev)))))
   \<and> (list_all payload_ok (message ev) \<and> plaintext ev = Some ft
      \<longrightarrow> (\<forall>m \<in> set (findall_av env ft).
              ''av'' @ m \<in> set (extract_bili_urls_from_event env ev))
          \<and> (\<forall>m \<in> set (findall_av_url env ft).
              av_prefix @ m @ ''/'' \<in> set (extract_bili_urls_from_event env ev)))
   \<and> (message ev = pre @ bad # post \<and> list_all payload_ok pre \<and> \<not> payload_ok bad
      \<longrightarrow> extract_bili_urls_from_event env ev = snd (scan_segments env pre []))
   \<and> payload_ok broken_json_seg \<and> json_loads toy_env ''{oops'' = None
   \<and> extract_bili_urls_from_event toy_env
        \<lparr>message = [broken_json_seg, text_seg], plaintext = None\<rparr> = [link]"
proof -
  let ?R = "set (extract_bili_urls_from_event env ev)"
  have a: "set (findall_bili env t) \<subseteq> ?R
        \<and> (\<forall>v \<in> set (query_values env t). set (findall_bili env v) \<subseteq> ?R)
        \<and> (seg_type seg = ''json'' \<and> json_loads env t = Some obj
            \<longrightarrow> (\<forall>leaf \<in> set (walk_strings obj).
                    set (findall_bili env leaf) \<subseteq> ?R
                  \<and> (\<forall>v \<in> set (query_values env leaf). set (findall_bili env v) \<subseteq> ?R)))"
    if h: "list_all payload_ok (message ev)" "seg \<in> set (message ev)" "payload seg = PStr t"
  proof -
    from scan_segments_complete [OF h(1), of env "[]"] obtain urls where
      c: "scan_segments env (message ev) [] = (True, urls)"
      by blast
    have sub: "set urls \<subseteq> ?R"
      using extract_set [OF c] by blast
    have "set (find_urls_str env t) \<subseteq> set urls"
      using c h(2)
    proof (rule scan_segments_member)
      fix urls0 urls1
      assume "scan_segment env seg urls0 = Some urls1"
      from scan_segment_collects(2) [OF this h(3)] show "set (find_urls_str env t) \<subseteq> set urls1" .
    qed
    with sub have p1: "set (find_urls_str env t) \<subseteq> ?R"
      by blast
    have p2: "set (find_urls_str env leaf) \<subseteq> ?R"
      if k: "seg_type seg = ''json''" "json_loads env t = Some obj" "leaf \<in> set (walk_strings obj)"
      for leaf
    proof -
      have "set (find_urls_str env leaf) \<subseteq> set urls"
        using c h(2)
      proof (rule scan_segments_member)
        fix urls0 urls1
        assume "scan_segment env seg urls0 = Some urls1"
        from scan_segment_collects(3) [OF this h(3) k(1) k(2) k(3)]
        show "set (find_urls_str env leaf) \<subseteq> set urls1" .
      qed
      with sub show ?thesis by blast
    qed
    from p1 have q1: "set (findall_bili env t) \<subseteq> ?R"
      and q2: "\<forall>v \<in> set (query_values env t). set (findall_bili env v) \<subseteq> ?R"
      unfolding set_find_urls_str by blast+
    have q3: "\<forall>leaf \<in> set (walk_strings obj).
                    set (findall_bili env leaf) \<subseteq> ?R
                  \<and> (\<forall>v \<in> set (query_values env leaf). set (findall_bili env v) \<subseteq> ?R)"
      if k: "seg_type seg = ''json''" "json_loads env t = Some obj"
    proof
      fix leaf
      assume "leaf \<in> set (walk_strings obj)"
      from p2 [OF k this] show "set (findall_bili env leaf) \<subseteq> ?R
                  \<and> (\<forall>v \<in> set (query_values env leaf). set (findall_bili env v) \<subseteq> ?R)"
        unfolding set_find_urls_str by blast
    qed
    from q1 q2 q3 show ?thesis by blast
  qed
  have t: "(\<forall>m \<in> set (findall_av env ft). ''av'' @ m \<in> ?R)
          \<and> (\<forall>m \<in> set (findall_av_url env ft). av_prefix @ m @ ''/'' \<in> ?R)"
    if h: "list_all payload_ok (message ev)" "plaintext ev = Some ft"
  proof -
    from scan_segments_complete [OF h(1), of env "[]"] obtain urls where
      c: "scan_segments env (message ev) [] = (True, urls)"
      by blast
    from extract_set [OF c] h(2) show ?thesis
      by auto
  qed
  have b: "extract_bili_urls_from_event env ev = snd (scan_segments env pre [])"
    if h: "message ev = pre @ bad # post" "list_all payload_ok pre" "\<not> payload_ok bad"
    using scan_segments_stops [OF h(2) h(3), of env post "[]"] h(1)
    by (simp add: extract_bili_urls_from_event_def)
  have c: "payload_ok broken_json_seg"
    by (simp add: payload_ok_def payload_def broken_json_seg_def dict_get_def
          dict_get_default_def py_or_def)
  have d: "json_loads toy_env ''{oops'' = None"
    by (simp add: toy_env_def)
  from a t b c d extract_sample show ?thesis by blast
qed

lemma sample_payloads:
  "payload broken_json_seg = PStr ''{oops''" "payload card_seg = PStr card"
  "payload text_seg = PStr link"
  by (simp_all add: payload_def broken_json_seg_def card_seg_def text_seg_def dict_get_def
        dict_get_default_def py_or_def card_def)

lemma sample_payload_ok:
  "payload_ok text_seg" "payload_ok broken_json_seg" "payload_ok card_seg"
  "\<not> payload_ok object_json_seg"
  by (simp_all add: payload_ok_def sample_payloads)
     (simp add: payload_def object_json_seg_def dict_get_def dict_get_default_def py_or_def)

lemma walk_card: "walk_strings card_obj = [link3, fwd]"
  by (simp add: card_obj_def)

lemma sample_strings:
  "card \<noteq> link" "card \<noteq> link2" "card \<noteq> link3" "card \<noteq> link4" "card \<noteq> fwd"
  "fwd \<noteq> link" "fwd \<noteq> link2" "fwd \<noteq> link3" "fwd \<noteq> link4"
  "link3 \<noteq> link" "link3 \<noteq> link2" "link4 \<noteq> link" "link4 \<noteq> link2" "link4 \<noteq> link3"
  by (simp_all add: card_def link_def link2_def link3_def link4_def fwd_def)

lemma card_env_sel:
  "findall_bili card_env card = [link]" "query_values card_env card = [link2]"
  "findall_bili card_env link2 = [link2]" "findall_bili card_env link3 = [link3]"
  "findall_bili card_env link4 = [link4]" "findall_bili card_env fwd = []"
  "query_values card_env fwd = [link4]" "query_values card_env link3 = []"
  "json_loads card_env card = Some card_obj"
  "findall_av card_env ''see av170001'' = [''170001'']"
  "findall_av_url card_env ''see av170001'' = [''2'']"
  using sample_strings by (simp_all add: card_env_def)

theorem extractor_partial_failure_witness:
  "list_all payload_ok (message sample_event) \<and> card_seg \<in> set (message sample_event)
   \<and> payload card_seg = PStr card
   \<and> seg_type card_seg = ''json'' \<and> json_loads card_env card = Some card_obj
   \<and> plaintext sample_event = Some ''see av170001''
   \<and> payload broken_json_seg = PStr ''{oops'' \<and> json_loads card_env ''{oops'' = None
   \<and> link \<in> set (findall_bili card_env card)
   \<and> link2 \<in> set (query_values card_env card) \<and> link2 \<in> set (findall_bili card_env link2)
   \<and> link3 \<in> set (walk_strings card_obj) \<and> link3 \<in> set (findall_bili card_env link3)
   \<and> fwd \<in> set (walk_strings card_obj) \<and> link4 \<in> set (query_values card_env fwd)
   \<and> link4 \<in> set (findall_bili card_env link4)
   \<and> ''170001'' \<in> set (findall_av card_env ''see av170001'')
   \<and> ''2'' \<in> set (findall_av_url card_env ''see av170001'')
   \<and> {link, link2, link3, link4, ''av170001'', ''https://www.bilibili.com/video/av2/''}
        \<subseteq> set (extract_bili_urls_from_event card_env sample_event)
   \<and> [text_seg, object_json_seg, text_seg] = [text_seg] @ object_json_seg # [text_seg]
   \<and> list_all payload_ok [text_seg] \<and> \<not> payload_ok object_json_seg
   \<and> extract_bili_urls_from_event toy_env
        \<lparr>message = [text_seg, object_json_seg, text_seg], plaintext = None\<rparr>
       = snd (scan_segments toy_env [text_seg] [])"
proof -
  let ?R = "set (extract_bili_urls_from_event card_env sample_event)"
  have h1: "list_all payload_ok (message sample_event)"
    by (simp add: sample_event_def sample_payload_ok)
  have h2: "card_seg \<in> set (message sample_event)"
    by (simp add: sample_event_def)
  have h3: "payload card_seg = PStr card"
    by (rule sample_payloads)
  have h4: "seg_type card_seg = ''json''"
    by (simp add: card_seg_def)
  have h5: "json_loads card_env card = Some card_obj"
    by (rule card_env_sel)
  have h6: "plaintext sample_event = Some ''see av170001''"
    by (simp add: sample_event_def)
  have h7: "json_loads card_env ''{oops'' = None"
    by (simp add: card_env_def card_def)
  note inst = extractor_partial_failure [of sample_event card_seg card card_env card_obj
      "''see av170001''"]
  from inst h1 h2 h3 h4 h5 have body:
    "set (findall_bili card_env card) \<subseteq> ?R
     \<and> (\<forall>v \<in> set (query_values card_env card). set (findall_bili card_env v) \<subseteq> ?R)
     \<and> (\<forall>leaf \<in> set (walk_strings card_obj).
            set (findall_bili card_env leaf) \<subseteq> ?R
          \<and> (\<forall>v \<in> set (query_values card_env leaf). set (findall_bili card_env v) \<subseteq> ?R))"
    by blast
  from inst h1 h6 have toks:
    "(\<forall>m \<in> set (findall_av card_env ''see av170001''). ''av'' @ m \<in> ?R)
     \<and> (\<forall>m \<in> set (findall_av_url card_env ''see av170001''). av_prefix @ m @ ''/'' \<in> ?R)"
    by blast
  have m1: "link \<in> set (findall_bili card_env card)"
    and m2: "link2 \<in> set (query_values card_env card)" "link2 \<in> set (findall_bili card_env link2)"
    and m3: "link3 \<in> set (walk_strings card_obj)" "link3 \<in> set (findall_bili card_env link3)"
    and m4: "fwd \<in> set (walk_strings card_obj)" "link4 \<in> set (query_values card_env fwd)"
            "link4 \<in> set (findall_bili card_env link4)"
    and m5: "''170001'' \<in> set (findall_av card_env ''see av170001'')"
            "''2'' \<in> set (findall_av_url card_env ''see av170001'')"
    by (simp_all add: card_env_sel walk_card)
  have r1: "link \<in> ?R"
    using body m1 by blast
  have r2: "link2 \<in> ?R"
    using body m2 by blast
  have r3: "link3 \<in> ?R"
    using body m3 by blast
  have r4: "link4 \<in> ?R"
    using body m4 by blast
  have r5: "''av'' @ ''170001'' \<in> ?R" "av_prefix @ ''2'' @ ''/'' \<in> ?R"
    using toks m5 by blast+
  then have r6: "''av170001'' \<in> ?R" "''https://www.bilibili.com/video/av2/'' \<in> ?R"
    by (simp_all add: av_prefix_def)
  have h8: "message \<lparr>message = [text_seg, object_json_seg, text_seg], plaintext = None\<rparr>
              = [text_seg] @ object_json_seg # [text_seg]"
    by simp
  have h9: "list_all payload_ok [text_seg]"
    by (simp add: sample_payload_ok)
  have c2: "extract_bili_urls_from_event toy_env
        \<lparr>message = [text_seg, object_json_seg, text_seg], plaintext = None\<rparr>
       = snd (scan_segments toy_env [text_seg] [])"
    using h8 h9 sample_payload_ok(4)
      extractor_partial_failure
        [where ev = "\<lparr>message = [text_seg, object_json_seg, text_seg], plaintext = None\<rparr>"
           and env = toy_env and pre = "[text_seg]" and bad = object_json_seg
           and post = "[text_seg]"]
    by blast
  have sub: "{link, link2, link3, link4, ''av170001'', ''https://www.bilibili.com/video/av2/''}
               \<subseteq> ?R"
    using r1 r2 r3 r4 r6 by blast
  from h1 h2 h3 h4 h5 h6 h7 sample_payloads(1) m1 m2 m3 m4 m5 sub h9 sample_payload_ok(4) c2
  show ?thesis by simp
qed

text \<open>
  The claim as worded fails: a JSON-card segment whose \<^verbatim>\<open>data\<close> field is an object
  rather than a string makes the pattern search raise; the plain-text segment after it,
  which holds a valid link, is never scanned and the result is empty.
\<close>

theorem extractor_aborts_on_non_text_payload:
  "link \<in> set (findall_bili toy_env link)
   \<and> dict_get_default (seg_data text_seg) ''text'' (PStr []) = PStr link
   \<and> extract_bili_urls_from_event toy_env
        \<lparr>message = [object_json_seg, text_seg], plaintext = Some link\<rparr> = []"
  by (simp add: extract_bili_urls_from_event_def scan_segment_def toy_env_def object_json_seg_def
        text_seg_def dict_get_def dict_get_default_def py_or_def find_urls_in_text_def)

end
